theory Spec2Isabelle
  imports Complex_Main "HOL-Library.Log_Nat" "HOL-Library.Word"
begin

unbundle bit_operations_syntax

section \<open>Go integers and durations\<close>

text \<open>
  The monitor is a Go program. Its \<^verbatim>\<open>int\<close> is taken at 64 bits (the width on every
  64-bit target); values are carried as \<^typ>\<open>int\<close> and the wrap-around of Go's signed
  arithmetic is written out with \<open>wrap64\<close> where a flag can drive an operation out of
  range, which is in the durations passed to \<^verbatim>\<open>time.Sleep\<close>; the conversion of the scaled
  delay to \<^verbatim>\<open>int\<close> has its own check of the range. The two counters that grow by one per
  iteration (the loop index of the prober, bounded by \<open>retries\<close>, and the failure counter,
  which would need \<open>2^63\<close> failing cycles in a row) are incremented without it.
\<close>

definition wrap64 :: "int \<Rightarrow> int" where
  "wrap64 x = (x + 2 ^ 63) mod 2 ^ 64 - 2 ^ 63"

text \<open>
  \<^verbatim>\<open>time.Duration(n) * time.Second\<close>: a duration is an int64 count of nanoseconds and
  \<^verbatim>\<open>time.Second\<close> is \<open>10^9\<close>.
\<close>

definition seconds :: "int \<Rightarrow> int" where
  "seconds n = wrap64 (n * 1000000000)"

text \<open>The whole seconds whose count of nanoseconds an int64 holds.\<close>

definition fits_duration :: "int \<Rightarrow> bool" where
  "fits_duration n = (- (2 ^ 63) \<le> n * 1000000000 \<and> n * 1000000000 < 2 ^ 63)"

section \<open>IEEE-754 binary64, as far as the backoff computation uses it\<close>

text \<open>
  \<open>Finite m e\<close> stands for the number \<open>m * 2^e\<close>; the two zeros are not told apart
  (they convert to the same integer). \<open>Infinity neg\<close> is the infinity of the given sign.
\<close>

datatype float64 = Finite int int | Infinity bool | NaN

definition fval :: "int \<Rightarrow> int \<Rightarrow> real" where
  "fval m e = of_int m * 2 powi e"

text \<open>
  The finite numbers of binary64 are the \<open>m * 2^e\<close> with a significand \<open>m\<close> of at most
  53 bits and an exponent \<open>e\<close> from \<open>-1074\<close> to \<open>971\<close>.
\<close>

definition binary64 :: "int \<Rightarrow> int \<Rightarrow> bool" where
  "binary64 m e = (\<bar>m\<bar> < 2 ^ 53 \<and> - 1074 \<le> e \<and> e \<le> 971)"

text \<open>
  Dividing a non-negative integer by \<open>2^k\<close>, rounding to the nearest integer and a tie to
  the even one.
\<close>

definition rne_shift :: "int \<Rightarrow> nat \<Rightarrow> int" where
  "rne_shift a k =
     (let q = a div 2 ^ k; r = a mod 2 ^ k
      in if 2 ^ k < 2 * r \<or> (2 * r = 2 ^ k \<and> odd q) then q + 1 else q)"

text \<open>
  Rounding the exact number \<open>m * 2^e\<close> to binary64 (round to nearest, ties to even):
  53 bits of precision, no exponent below \<open>-1074\<close>, and an infinity from \<open>2^1024\<close> on.
\<close>

definition round64 :: "int \<Rightarrow> int \<Rightarrow> float64" where
  "round64 m e =
     (if m = 0 then Finite 0 e
      else
        (let a = \<bar>m\<bar>; n = bitlen a; e' = max (e + n - 53) (- 1074)
         in if e' \<le> e then (if 1024 < e + n then Infinity (m < 0) else Finite m e)
            else (let q = rne_shift a (nat (e' - e))
                  in if 1024 < e' + bitlen q then Infinity (m < 0)
                     else Finite (sgn m * q) e')))"

text \<open>The conversion \<^verbatim>\<open>float64(x)\<close> of an integer.\<close>

definition float64_of_int :: "int \<Rightarrow> float64" where
  "float64_of_int x = round64 x 0"

text \<open>The product \<^verbatim>\<open>x * y\<close> of two float64 values.\<close>

fun fmul :: "float64 \<Rightarrow> float64 \<Rightarrow> float64" where
  "fmul NaN y = NaN"
| "fmul x NaN = NaN"
| "fmul (Finite m e) (Finite m' e') = round64 (m * m') (e + e')"
| "fmul (Finite m e) (Infinity neg) = (if m = 0 then NaN else Infinity (neg \<noteq> (m < 0)))"
| "fmul (Infinity neg) (Finite m e) = (if m = 0 then NaN else Infinity (neg \<noteq> (m < 0)))"
| "fmul (Infinity neg) (Infinity neg') = Infinity (neg \<noteq> neg')"

text \<open>The integer part of \<open>m * 2^e\<close>, the fraction discarded (truncation towards zero).\<close>

definition trunc_scaled :: "int \<Rightarrow> int \<Rightarrow> int" where
  "trunc_scaled m e =
     (if 0 \<le> e then m * 2 ^ nat e else sgn m * (\<bar>m\<bar> div 2 ^ nat (- e)))"

text \<open>Truncation towards zero of a real number: what \<open>trunc_scaled\<close> is to compute.\<close>

definition trunc_toward_zero :: "real \<Rightarrow> int" where
  "trunc_toward_zero x = (if 0 \<le> x then \<lfloor>x\<rfloor> else \<lceil>x\<rceil>)"

text \<open>
  The conversion \<^verbatim>\<open>int(f)\<close>. Go discards the fraction; where the result does not fit
  the integer type the conversion still succeeds and its value is implementation-dependent
  (on amd64 it is \<open>- 2^63\<close>, on arm64 it saturates). That value is the parameter \<open>oor\<close>.
\<close>

definition int_of_float64 :: "(float64 \<Rightarrow> int) \<Rightarrow> float64 \<Rightarrow> int" where
  "int_of_float64 oor f =
     (case f of
        Finite m e \<Rightarrow>
          (let t = trunc_scaled m e
           in if - (2 ^ 63) \<le> t \<and> t < 2 ^ 63 then t else oor f)
      | Infinity neg \<Rightarrow> oor f
      | NaN \<Rightarrow> oor f)"

text \<open>What amd64 returns for a value out of range.\<close>

definition oor_amd64 :: "float64 \<Rightarrow> int" where
  "oor_amd64 f = - (2 ^ 63)"

section \<open>The prober\<close>

text \<open>
  \<^verbatim>\<open>client.Get(url)\<close> returns either a transport error or a response, of which the
  code reads the status code only. The client and the network behind it are an oracle:
  the result of the \<open>i\<close>-th call made during one run of the prober.
\<close>

datatype attempt = TransportError string | Response int

datatype probe_event =
    HttpGet string
  | LogRequestFailed int int string
  | LogBadStatus int int int
  | RetrySleep int

definition emit :: "'e list \<Rightarrow> 'r \<times> 'e list \<Rightarrow> 'r \<times> 'e list" where
  "emit evs p = (fst p, evs @ snd p)"

text \<open>
  The loop \<^verbatim>\<open>for i := 0; i < retries; i++\<close> of \<^verbatim>\<open>checkWebsiteDown\<close> (the variant with
  backoff), from the iteration \<open>i\<close> on. The result is the returned boolean (true: the site
  is down) and what the call did, in order. Inside the body \<open>i < retries\<close> holds, so
  neither \<open>i + 1\<close> nor \<open>retries - 1\<close> leaves the integer range. The deferred
  \<^verbatim>\<open>resp.Body.Close()\<close> releases the connection when the function returns; it has no
  part in the result and is left out.
\<close>

function checkWebsiteDown_loop ::
  "string \<Rightarrow> (nat \<Rightarrow> attempt) \<Rightarrow> int \<Rightarrow> bool \<Rightarrow> int \<Rightarrow> bool \<times> probe_event list" where
  "checkWebsiteDown_loop url client retries verbose i =
     (if i < retries then
        (case client (nat i) of
           TransportError err \<Rightarrow>
             (let logged = (if verbose then [LogRequestFailed (i + 1) retries err] else [])
              in if i < retries - 1
                 then emit (HttpGet url # logged @ [RetrySleep (2 * 1000000000)])
                        (checkWebsiteDown_loop url client retries verbose (i + 1))
                 else (True, HttpGet url # logged))
         | Response code \<Rightarrow>
             (if code < 200 \<or> code \<ge> 400 then
                (let logged = (if verbose then [LogBadStatus (i + 1) retries code] else [])
                 in if i < retries - 1
                    then emit (HttpGet url # logged @ [RetrySleep (2 * 1000000000)])
                           (checkWebsiteDown_loop url client retries verbose (i + 1))
                    else (True, HttpGet url # logged))
              else (False, [HttpGet url])))
      else (True, []))"
  by pat_completeness auto
termination
  by (relation "measure (\<lambda>(url, client, retries, verbose, i). nat (retries - i))") auto

definition checkWebsiteDown ::
  "string \<Rightarrow> (nat \<Rightarrow> attempt) \<Rightarrow> int \<Rightarrow> bool \<Rightarrow> bool \<times> probe_event list" where
  "checkWebsiteDown url client retries verbose =
     checkWebsiteDown_loop url client retries verbose 0"

text \<open>The same function as the variant without backoff (\<^verbatim>\<open>main.go\<close>) has it.\<close>

function checkWebsiteDown_main_go_loop ::
  "string \<Rightarrow> (nat \<Rightarrow> attempt) \<Rightarrow> int \<Rightarrow> bool \<Rightarrow> int \<Rightarrow> bool \<times> probe_event list" where
  "checkWebsiteDown_main_go_loop url client retries verbose i =
     (if i < retries then
        (case client (nat i) of
           TransportError err \<Rightarrow>
             (let logged = (if verbose then [LogRequestFailed (i + 1) retries err] else [])
              in if i < retries - 1
                 then emit (HttpGet url # logged @ [RetrySleep (2 * 1000000000)])
                        (checkWebsiteDown_main_go_loop url client retries verbose (i + 1))
                 else (True, HttpGet url # logged))
         | Response code \<Rightarrow>
             (if code < 200 \<or> code \<ge> 400 then
                (let logged = (if verbose then [LogBadStatus (i + 1) retries code] else [])
                 in if i < retries - 1
                    then emit (HttpGet url # logged @ [RetrySleep (2 * 1000000000)])
                           (checkWebsiteDown_main_go_loop url client retries verbose (i + 1))
                    else (True, HttpGet url # logged))
              else (False, [HttpGet url])))
      else (True, []))"
  by pat_completeness auto
termination
  by (relation "measure (\<lambda>(url, client, retries, verbose, i). nat (retries - i))") auto

definition checkWebsiteDown_main_go ::
  "string \<Rightarrow> (nat \<Rightarrow> attempt) \<Rightarrow> int \<Rightarrow> bool \<Rightarrow> bool \<times> probe_event list" where
  "checkWebsiteDown_main_go url client retries verbose =
     checkWebsiteDown_main_go_loop url client retries verbose 0"

text \<open>What the spec calls a successful attempt, and the attempts a call made.\<close>

fun attempt_ok :: "attempt \<Rightarrow> bool" where
  "attempt_ok (TransportError err) = False"
| "attempt_ok (Response code) = (200 \<le> code \<and> code < 400)"

fun is_get :: "probe_event \<Rightarrow> bool" where
  "is_get (HttpGet u) = True"
| "is_get ev = False"

definition attempts_made :: "probe_event list \<Rightarrow> nat" where
  "attempts_made evs = length (filter is_get evs)"

fun is_probe_log :: "probe_event \<Rightarrow> bool" where
  "is_probe_log (LogRequestFailed i n err) = True"
| "is_probe_log (LogBadStatus i n code) = True"
| "is_probe_log ev = False"

section \<open>The remediation action\<close>

text \<open>
  What can happen to the launched executable, and what \<^verbatim>\<open>cmd.CombinedOutput()\<close> of
  \<^verbatim>\<open>os/exec\<close> returns for it: the captured output, and an error unless the command
  started, its output was copied and it exited with status zero.
\<close>

datatype proc_outcome = StartError string | Exited int string | WaitError string string

datatype exec_error = ErrStart string | ExitError int | ErrWait string

fun CombinedOutput :: "proc_outcome \<Rightarrow> string \<times> exec_error option" where
  "CombinedOutput (StartError msg) = ([], Some (ErrStart msg))"
| "CombinedOutput (Exited status out) =
     (out, if status = 0 then None else Some (ExitError status))"
| "CombinedOutput (WaitError out msg) = (out, Some (ErrWait msg))"

datatype exec_event = LogExecFailed exec_error | Println string

definition executeELF :: "proc_outcome \<Rightarrow> exec_event list" where
  "executeELF outcome =
     (case CombinedOutput outcome of
        (output, Some err) \<Rightarrow> [LogExecFailed err]
      | (output, None) \<Rightarrow> [Println ''ELF binary output:'', Println output])"

section \<open>The monitor\<close>

record flags =
  urlFlag :: string
  intervalFlag :: int
  elfPathFlag :: string
  timeoutFlag :: int
  verboseFlag :: bool
  retriesFlag :: int
  maxBackoffFlag :: int
  initialBackoffFlag :: int
  backoffFactorFlag :: float64

record backoff =
  consecutiveFailures :: int
  currentBackoff :: int

datatype fatal = UrlRequired | ElfRequired | CannotAccess string | NotExecutable string

text \<open>
  The start of \<^verbatim>\<open>main\<close>, up to the loop: the checks that end the process with
  \<^verbatim>\<open>log.Fatal\<close>, then the initial backoff state. \<open>stat\<close> is \<^verbatim>\<open>os.Stat\<close>: the mode bits of
  a path, or nothing where the call fails. \<^verbatim>\<open>Perm()\<close> keeps the bits \<open>0777\<close> (511) and
  the test is against \<open>0111\<close> (73). The four lines logged at the start and the
  construction of the HTTP client (behind the oracle of the prober) are left out. These
  are all the checks there are: no numeric flag is looked at.
\<close>

definition main_start :: "flags \<Rightarrow> (string \<Rightarrow> 32 word option) \<Rightarrow> fatal + backoff" where
  "main_start f stat =
     (if urlFlag f = [] then Inl UrlRequired
      else if elfPathFlag f = [] then Inl ElfRequired
      else (case stat (elfPathFlag f) of
              None \<Rightarrow> Inl (CannotAccess (elfPathFlag f))
            | Some mode \<Rightarrow>
                if (mode AND 511) AND 73 = 0 then Inl (NotExecutable (elfPathFlag f))
                else Inr \<lparr>consecutiveFailures = 0, currentBackoff = initialBackoffFlag f\<rparr>))"

datatype main_event =
    Probe "probe_event list"
  | LogDown string
  | Exec "exec_event list"
  | LogBackoff int int
  | LogUp string
  | Sleep int

text \<open>\<^verbatim>\<open>int(float64(currentBackoff) * *backoffFactorFlag)\<close>\<close>

definition newBackoff :: "(float64 \<Rightarrow> int) \<Rightarrow> int \<Rightarrow> float64 \<Rightarrow> int" where
  "newBackoff oor cur factor = int_of_float64 oor (fmul (float64_of_int cur) factor)"

text \<open>
  The body of the monitoring loop after the call of the prober: \<open>siteDown\<close> is what the
  prober returned, \<open>outcome\<close> what happens to the executable if it is launched.
\<close>

definition main_react ::
  "flags \<Rightarrow> (float64 \<Rightarrow> int) \<Rightarrow> proc_outcome \<Rightarrow> bool \<Rightarrow> backoff \<Rightarrow> backoff \<times> main_event list" where
  "main_react f oor outcome siteDown s =
     (if siteDown then
        (let ran = [LogDown (urlFlag f), Exec (executeELF outcome)];
             failures = consecutiveFailures s + 1
         in if failures > 1 then
              (let nb = newBackoff oor (currentBackoff s) (backoffFactorFlag f);
                   cb = (if nb > maxBackoffFlag f then maxBackoffFlag f else nb)
               in (\<lparr>consecutiveFailures = failures, currentBackoff = cb\<rparr>,
                   ran @ [LogBackoff failures cb, Sleep (seconds cb)]))
            else (\<lparr>consecutiveFailures = failures, currentBackoff = currentBackoff s\<rparr>,
                  ran @ [Sleep (seconds (intervalFlag f))]))
      else
        (\<lparr>consecutiveFailures = 0, currentBackoff = initialBackoffFlag f\<rparr>,
         (if verboseFlag f then [LogUp (urlFlag f)] else [])
           @ [Sleep (seconds (intervalFlag f))]))"

text \<open>What one iteration of the loop meets: the answers to its requests and the fate of
  the executable.\<close>

record cycle_io =
  responses :: "nat \<Rightarrow> attempt"
  launched :: proc_outcome

definition main_cycle ::
  "flags \<Rightarrow> (float64 \<Rightarrow> int) \<Rightarrow> cycle_io \<Rightarrow> backoff \<Rightarrow> backoff \<times> main_event list" where
  "main_cycle f oor io s =
     (let probed = checkWebsiteDown (urlFlag f) (responses io) (retriesFlag f) (verboseFlag f)
      in emit [Probe (snd probed)] (main_react f oor (launched io) (fst probed) s))"

text \<open>The loop never ends by itself; \<open>main_loop\<close> is its first iterations, one for each
  element of the list.\<close>

fun main_loop ::
  "flags \<Rightarrow> (float64 \<Rightarrow> int) \<Rightarrow> cycle_io list \<Rightarrow> backoff \<Rightarrow> backoff \<times> main_event list" where
  "main_loop f oor [] s = (s, [])"
| "main_loop f oor (io # ios) s =
     (let c = main_cycle f oor io s
      in emit (snd c) (main_loop f oor ios (fst c)))"

text \<open>The backoff state machine alone, driven by the outcomes of the prober.\<close>

fun react_all ::
  "flags \<Rightarrow> (float64 \<Rightarrow> int) \<Rightarrow> (bool \<times> proc_outcome) list \<Rightarrow> backoff \<Rightarrow> backoff \<times> main_event list" where
  "react_all f oor [] s = (s, [])"
| "react_all f oor (x # xs) s =
     (let c = main_react f oor (snd x) (fst x) s
      in emit (snd c) (react_all f oor xs (fst c)))"

fun slept :: "main_event list \<Rightarrow> int list" where
  "slept [] = []"
| "slept (Sleep d # evs) = d # slept evs"
| "slept (ev # evs) = slept evs"

fun is_probe :: "main_event \<Rightarrow> bool" where
  "is_probe (Probe evs) = True"
| "is_probe ev = False"

section \<open>Concrete runs\<close>

text \<open>Scenario A of the spec: a transport error, then status 503, then status 200.\<close>

definition scenario_A :: "nat \<Rightarrow> attempt" where
  "scenario_A i =
     (if i = 0 then TransportError ''connection refused''
      else if i = 1 then Response 503 else Response 200)"

text \<open>Scenario B: every request times out.\<close>

definition always_timeout :: "nat \<Rightarrow> attempt" where
  "always_timeout i = TransportError ''timeout''"

text \<open>The flags of scenario C, the others at their defaults.\<close>

definition scenario_C :: flags where
  "scenario_C =
     \<lparr>urlFlag = ''http://example.org'', intervalFlag = 60, elfPathFlag = ''/usr/local/bin/fix'',
      timeoutFlag = 10, verboseFlag = False, retriesFlag = 3, maxBackoffFlag = 300,
      initialBackoffFlag = 60, backoffFactorFlag = Finite 1 1\<rparr>"

text \<open>The default flags with \<^verbatim>\<open>-backoff-factor 1.5\<close>, and scenario C with
  \<^verbatim>\<open>-initial-backoff -10\<close>.\<close>

definition factor_1_5 :: flags where
  "factor_1_5 = scenario_C\<lparr>maxBackoffFlag := 3600, backoffFactorFlag := Finite 3 (- 1)\<rparr>"

definition negative_initial :: flags where
  "negative_initial = scenario_C\<lparr>initialBackoffFlag := - 10\<rparr>"

text \<open>Scenario C with \<^verbatim>\<open>-interval 18446744074\<close>; with
  \<^verbatim>\<open>-initial-backoff 9223372037 -max-backoff 18446744074\<close>; with
  \<^verbatim>\<open>-initial-backoff 600\<close>, above the maximum; with initial delay and maximum
  \<open>2^53 + 1\<close> and factor 1; with factor \<open>2^60\<close>; and with initial delay 4 and factor
  1.1, which is \<open>2476979795053773 * 2^-51\<close> in binary64.\<close>

definition long_interval :: flags where
  "long_interval = scenario_C\<lparr>intervalFlag := 18446744074\<rparr>"

definition long_backoff :: flags where
  "long_backoff =
     scenario_C\<lparr>maxBackoffFlag := 18446744074, initialBackoffFlag := 9223372037\<rparr>"

definition initial_above_maximum :: flags where
  "initial_above_maximum = scenario_C\<lparr>initialBackoffFlag := 600\<rparr>"

definition initial_54_bits :: flags where
  "initial_54_bits =
     scenario_C\<lparr>maxBackoffFlag := 2 ^ 53 + 1, initialBackoffFlag := 2 ^ 53 + 1,
       backoffFactorFlag := Finite 1 0\<rparr>"

definition factor_2_60 :: flags where
  "factor_2_60 = scenario_C\<lparr>backoffFactorFlag := Finite 1 60\<rparr>"

definition factor_1_1 :: flags where
  "factor_1_1 =
     scenario_C\<lparr>initialBackoffFlag := 4, backoffFactorFlag := Finite 2476979795053773 (- 51)\<rparr>"

text \<open>Scenario C with \<^verbatim>\<open>-backoff-factor +Inf\<close>; with \<^verbatim>\<open>-max-backoff\<close> at \<open>2^60\<close>; and with
  initial delay \<open>2^61\<close> and maximum \<open>2^62 - 1\<close>, where \<open>maximum * factor\<close> is \<open>2^63 - 2\<close>.\<close>

definition infinite_factor :: flags where
  "infinite_factor = scenario_C\<lparr>backoffFactorFlag := Infinity False\<rparr>"

definition large_maximum :: flags where
  "large_maximum = scenario_C\<lparr>maxBackoffFlag := 2 ^ 60\<rparr>"

definition maximum_near_2_63 :: flags where
  "maximum_near_2_63 =
     scenario_C\<lparr>maxBackoffFlag := 2 ^ 62 - 1, initialBackoffFlag := 2 ^ 61\<rparr>"

definition site_down :: cycle_io where
  "site_down = \<lparr>responses = always_timeout, launched = Exited 0 ''restarted''\<rparr>"

definition site_up :: cycle_io where
  "site_up = \<lparr>responses = (\<lambda>i. Response 200), launched = Exited 0 ''restarted''\<rparr>"

section \<open>Lemmas on the prober\<close>

declare checkWebsiteDown_loop.simps [simp del]

declare checkWebsiteDown_main_go_loop.simps [simp del]

lemma fst_emit [simp]: "fst (emit evs p) = fst p"
  by (simp add: emit_def)

lemma snd_emit [simp]: "snd (emit evs p) = evs @ snd p"
  by (simp add: emit_def)

lemma attempts_made_simps [simp]:
  "attempts_made [] = 0"
  "attempts_made (HttpGet u # evs) = Suc (attempts_made evs)"
  "attempts_made (LogRequestFailed a b c # evs) = attempts_made evs"
  "attempts_made (LogBadStatus a b d # evs) = attempts_made evs"
  "attempts_made (RetrySleep n # evs) = attempts_made evs"
  "attempts_made (xs @ ys) = attempts_made xs + attempts_made ys"
  by (simp_all add: attempts_made_def)

text \<open>One iteration of the loop, its two failure branches read through \<open>attempt_ok\<close>.\<close>

lemma loop_step_fst:
  "fst (checkWebsiteDown_loop url client retries verbose i) =
     (if i < retries then
        (if attempt_ok (client (nat i)) then False
         else if i < retries - 1
           then fst (checkWebsiteDown_loop url client retries verbose (i + 1))
         else True)
      else True)"
  by (subst checkWebsiteDown_loop.simps) (auto split: attempt.splits simp: Let_def)

lemma loop_step_attempts:
  "attempts_made (snd (checkWebsiteDown_loop url client retries verbose i)) =
     (if i < retries then
        (if attempt_ok (client (nat i)) then 1
         else if i < retries - 1
           then Suc (attempts_made (snd (checkWebsiteDown_loop url client retries verbose (i + 1))))
         else 1)
      else 0)"
  by (subst checkWebsiteDown_loop.simps) (auto split: attempt.splits simp: Let_def)

lemma loop_down_iff:
  "0 \<le> i \<Longrightarrow>
   fst (checkWebsiteDown_loop url client retries verbose i) \<longleftrightarrow>
   (\<forall>j. nat i \<le> j \<and> int j < retries \<longrightarrow> \<not> attempt_ok (client j))"
proof (induction url client retries verbose i rule: checkWebsiteDown_loop.induct)
  case (1 url client retries verbose i)
  let ?P = "\<lambda>j. int j < retries \<longrightarrow> \<not> attempt_ok (client j)"
  have suc: "nat (i + 1) = Suc (nat i)"
    using \<open>0 \<le> i\<close> by (simp add: nat_add_distrib)
  have cut: "nat i \<le> j \<longleftrightarrow> j = nat i \<or> nat (i + 1) \<le> j" for j
    unfolding suc by auto
  have split: "(\<forall>j. nat i \<le> j \<longrightarrow> ?P j) \<longleftrightarrow> ?P (nat i) \<and> (\<forall>j. nat (i + 1) \<le> j \<longrightarrow> ?P j)"
    by (simp only: cut) blast
  show ?case
  proof (cases "i < retries")
    case False
    then show ?thesis using \<open>0 \<le> i\<close> by (subst loop_step_fst) auto
  next
    case in_loop: True
    show ?thesis
    proof (cases "attempt_ok (client (nat i))")
      case True
      with in_loop \<open>0 \<le> i\<close> show ?thesis by (subst loop_step_fst) auto
    next
      case failed: False
      show ?thesis
      proof (cases "i < retries - 1")
        case True
        have "fst (checkWebsiteDown_loop url client retries verbose (i + 1)) \<longleftrightarrow>
              (\<forall>j. nat (i + 1) \<le> j \<and> int j < retries \<longrightarrow> \<not> attempt_ok (client j))"
          using "1.IH" in_loop failed True \<open>0 \<le> i\<close>
          by (cases "client (nat i)") auto
        then show ?thesis
          using in_loop failed True split by (subst loop_step_fst) auto
      next
        case False
        with in_loop have "retries = i + 1" by simp
        then show ?thesis
          using in_loop failed False \<open>0 \<le> i\<close> split by (subst loop_step_fst) auto
      qed
    qed
  qed
qed

lemma loop_down_attempts:
  "0 \<le> i \<Longrightarrow> fst (checkWebsiteDown_loop url client retries verbose i) \<Longrightarrow>
   attempts_made (snd (checkWebsiteDown_loop url client retries verbose i)) = nat (retries - i)"
proof (induction url client retries verbose i rule: checkWebsiteDown_loop.induct)
  case (1 url client retries verbose i)
  show ?case
  proof (cases "i < retries \<and> \<not> attempt_ok (client (nat i)) \<and> i < retries - 1")
    case True
    then have down: "fst (checkWebsiteDown_loop url client retries verbose (i + 1))"
      using "1.prems"(2) by (subst (asm) loop_step_fst) simp
    have "attempts_made (snd (checkWebsiteDown_loop url client retries verbose (i + 1))) =
          nat (retries - (i + 1))"
      using "1.IH" True down \<open>0 \<le> i\<close> by (cases "client (nat i)") auto
    then show ?thesis using True by (subst loop_step_attempts) auto
  next
    case False
    then show ?thesis
      using "1.prems"
      by (subst loop_step_attempts, subst (asm) loop_step_fst) (auto split: if_splits)
  qed
qed

lemma loop_up_attempts:
  "0 \<le> i \<Longrightarrow> \<not> fst (checkWebsiteDown_loop url client retries verbose i) \<Longrightarrow>
   \<exists>j. nat i \<le> j \<and> int j < retries \<and> attempt_ok (client j) \<and>
       (\<forall>k. nat i \<le> k \<and> k < j \<longrightarrow> \<not> attempt_ok (client k)) \<and>
       attempts_made (snd (checkWebsiteDown_loop url client retries verbose i)) = Suc j - nat i"
proof (induction url client retries verbose i rule: checkWebsiteDown_loop.induct)
  case (1 url client retries verbose i)
  from "1.prems"(2) have in_loop: "i < retries"
    by (subst (asm) loop_step_fst) (auto split: if_splits)
  show ?case
  proof (cases "attempt_ok (client (nat i))")
    case True
    have "attempts_made (snd (checkWebsiteDown_loop url client retries verbose i)) = 1"
      using True in_loop by (subst loop_step_attempts) simp
    then show ?thesis
      using True in_loop \<open>0 \<le> i\<close> by (intro exI [of _ "nat i"]) auto
  next
    case failed: False
    with "1.prems"(2) in_loop have more: "i < retries - 1"
      and up: "\<not> fst (checkWebsiteDown_loop url client retries verbose (i + 1))"
      by (subst (asm) loop_step_fst, auto split: if_splits)+
    have "\<exists>j. nat (i + 1) \<le> j \<and> int j < retries \<and> attempt_ok (client j) \<and>
       (\<forall>k. nat (i + 1) \<le> k \<and> k < j \<longrightarrow> \<not> attempt_ok (client k)) \<and>
       attempts_made (snd (checkWebsiteDown_loop url client retries verbose (i + 1))) =
         Suc j - nat (i + 1)"
      using "1.IH" in_loop failed more up \<open>0 \<le> i\<close> by (cases "client (nat i)") auto
    then obtain j where j: "nat (i + 1) \<le> j" "int j < retries" "attempt_ok (client j)"
      "\<forall>k. nat (i + 1) \<le> k \<and> k < j \<longrightarrow> \<not> attempt_ok (client k)"
      "attempts_made (snd (checkWebsiteDown_loop url client retries verbose (i + 1))) =
         Suc j - nat (i + 1)"
      by blast
    have suc: "nat (i + 1) = Suc (nat i)"
      using \<open>0 \<le> i\<close> by (simp add: nat_add_distrib)
    have before: "\<forall>k. nat i \<le> k \<and> k < j \<longrightarrow> \<not> attempt_ok (client k)"
    proof (intro allI impI)
      fix k assume k: "nat i \<le> k \<and> k < j"
      show "\<not> attempt_ok (client k)"
      proof (cases "k = nat i")
        case True
        then show ?thesis using failed by simp
      next
        case False
        with k have "nat (i + 1) \<le> k \<and> k < j" using suc by simp
        with j(4) show ?thesis by blast
      qed
    qed
    have "attempts_made (snd (checkWebsiteDown_loop url client retries verbose i)) = Suc j - nat i"
      using in_loop failed more j(1,5) suc by (subst loop_step_attempts) simp
    with j(1-3) before suc show ?thesis
      by (intro exI [of _ j]) simp
  qed
qed

lemma loops_agree:
  "checkWebsiteDown_main_go_loop url client retries verbose i =
   checkWebsiteDown_loop url client retries verbose i"
proof (induction url client retries verbose i rule: checkWebsiteDown_loop.induct)
  case (1 url client retries verbose i)
  show ?case
    by (subst checkWebsiteDown_main_go_loop.simps, subst checkWebsiteDown_loop.simps)
       (use 1 in \<open>auto split: attempt.splits simp: Let_def\<close>)
qed

lemma loop_result_verbose:
  "fst (checkWebsiteDown_loop url client retries v1 i) =
   fst (checkWebsiteDown_loop url client retries v2 i)"
proof (induction url client retries v1 i rule: checkWebsiteDown_loop.induct)
  case (1 url client retries verbose i)
  show ?case
    by (subst checkWebsiteDown_loop.simps, subst (2) checkWebsiteDown_loop.simps)
       (use 1 in \<open>auto split: attempt.splits simp: Let_def\<close>)
qed

lemma loop_effects_verbose:
  "filter (\<lambda>ev. \<not> is_probe_log ev) (snd (checkWebsiteDown_loop url client retries v1 i)) =
   filter (\<lambda>ev. \<not> is_probe_log ev) (snd (checkWebsiteDown_loop url client retries v2 i))"
proof (induction url client retries v1 i rule: checkWebsiteDown_loop.induct)
  case (1 url client retries verbose i)
  show ?case
    by (subst checkWebsiteDown_loop.simps, subst (2) checkWebsiteDown_loop.simps)
       (use 1 in \<open>auto split: attempt.splits simp: Let_def\<close>)
qed

section \<open>Lemmas on the float64 product of the backoff step\<close>

text \<open>\<open>rne_shift\<close> returns a nearest integer to \<open>a / 2^k\<close>, the even one of two.\<close>

lemma rne_shift_nearest:
  "2 * \<bar>a - rne_shift a k * 2 ^ k\<bar> \<le> 2 ^ k \<and>
   (2 * \<bar>a - rne_shift a k * 2 ^ k\<bar> = 2 ^ k \<longrightarrow> even (rne_shift a k))"
proof -
  let ?q = "a div 2 ^ k" and ?r = "a mod 2 ^ k"
  have a: "a = ?q * 2 ^ k + ?r" by (simp only: div_mult_mod_eq)
  have r: "0 \<le> ?r" "?r < 2 ^ k" by simp_all
  show ?thesis
  proof (cases "2 ^ k < 2 * ?r \<or> (2 * ?r = 2 ^ k \<and> odd ?q)")
    case True
    then have q: "rne_shift a k = ?q + 1" by (simp add: rne_shift_def Let_def)
    have "a - (?q + 1) * 2 ^ k = ?r - 2 ^ k" using a by (simp add: algebra_simps)
    moreover have "\<bar>?r - 2 ^ k\<bar> = 2 ^ k - ?r" using r by linarith
    ultimately have d: "\<bar>a - (?q + 1) * 2 ^ k\<bar> = 2 ^ k - ?r" by simp
    from True show ?thesis unfolding q d by auto
  next
    case False
    then have q: "rne_shift a k = ?q" by (simp add: rne_shift_def Let_def)
    have "a - ?q * 2 ^ k = ?r" using a by (simp add: algebra_simps)
    moreover have "\<bar>?r\<bar> = ?r" using r by linarith
    ultimately have d: "\<bar>a - ?q * 2 ^ k\<bar> = ?r" by simp
    from False show ?thesis unfolding q d by auto
  qed
qed

lemma rne_shift_lower: "c * 2 ^ k \<le> a \<Longrightarrow> c \<le> rne_shift a k"
proof -
  assume "c * 2 ^ k \<le> a"
  then have "(c * 2 ^ k) div 2 ^ k \<le> a div 2 ^ k"
    by (intro zdiv_mono1) simp_all
  then have "c \<le> a div 2 ^ k" by simp
  then show ?thesis by (simp add: rne_shift_def Let_def)
qed

lemma rne_shift_upper: "a \<le> c * 2 ^ k \<Longrightarrow> rne_shift a k \<le> c"
proof -
  assume le: "a \<le> c * 2 ^ k"
  let ?q = "a div 2 ^ k" and ?r = "a mod 2 ^ k"
  have a: "a = ?q * 2 ^ k + ?r" by (simp only: div_mult_mod_eq)
  have r: "0 \<le> ?r" by simp
  show ?thesis
  proof (cases "?r = 0")
    case True
    then have "rne_shift a k = ?q" by (simp add: rne_shift_def Let_def)
    moreover have "?q * 2 ^ k \<le> c * 2 ^ k" using a True le by simp
    then have "?q \<le> c" by simp
    ultimately show ?thesis by simp
  next
    case False
    with r have "0 < ?r" by linarith
    with a le have "?q * 2 ^ k < c * 2 ^ k" by linarith
    then have "?q < c" by simp
    moreover have "rne_shift a k \<le> ?q + 1" by (simp add: rne_shift_def Let_def)
    ultimately show ?thesis by simp
  qed
qed

lemma fval_nonneg_exp: "0 \<le> e \<Longrightarrow> fval m e = of_int (m * 2 ^ nat e)"
  by (simp add: fval_def power_int_def)

lemma fval_neg_exp: "e < 0 \<Longrightarrow> fval m e = of_int m / 2 ^ nat (- e)"
  by (simp add: fval_def power_int_def field_simps)

lemma trunc_scaled_floor: "0 \<le> q \<Longrightarrow> trunc_scaled q e = \<lfloor>fval q e\<rfloor>"
proof (cases "0 \<le> e")
  case True
  then have "\<lfloor>fval q e\<rfloor> = q * 2 ^ nat e"
    by (simp only: fval_nonneg_exp floor_of_int)
  with True show ?thesis by (simp add: trunc_scaled_def)
next
  case False
  assume "0 \<le> q"
  have "\<lfloor>of_int q / (2::real) ^ nat (- e)\<rfloor> = q div 2 ^ nat (- e)"
    using floor_divide_of_int_eq [of q "2 ^ nat (- e)", where ?'a = real] by simp
  with False \<open>0 \<le> q\<close> show ?thesis
    by (cases "q = 0") (simp_all add: trunc_scaled_def fval_neg_exp)
qed

text \<open>Powers of two with integer exponents.\<close>

lemma two_powi_add: "(2::real) powi (a + b) = 2 powi a * 2 powi b"
  by (simp add: power_int_add)

lemma two_powi_pos: "0 < (2::real) powi a"
  by simp

lemma two_powi_nat: "0 \<le> a \<Longrightarrow> (2::real) powi a = of_int (2 ^ nat a)"
  by (simp add: power_int_def)

lemma two_powi_le: "(2::real) powi a \<le> 2 powi b \<longleftrightarrow> a \<le> b"
proof
  assume "(2::real) powi a \<le> 2 powi b"
  show "a \<le> b"
  proof (rule ccontr)
    assume "\<not> a \<le> b"
    then have "b < a" by simp
    then have "(2::real) powi b < 2 powi a" by (intro power_int_strict_increasing) simp_all
    with \<open>(2::real) powi a \<le> 2 powi b\<close> show False by simp
  qed
next
  assume "a \<le> b" then show "(2::real) powi a \<le> 2 powi b"
    by (intro power_int_increasing) simp_all
qed

lemma bitlen_powi:
  assumes "0 < m"
  shows "(2::real) powi (bitlen m - 1) \<le> of_int m" and "of_int m < (2::real) powi (bitlen m)"
    and "1 \<le> bitlen m"
proof -
  from assms have b: "2 ^ nat (bitlen m - 1) \<le> m" "m < 2 ^ nat (bitlen m)"
    using bitlen_bounds [of m] by simp_all
  from assms show one: "1 \<le> bitlen m"
    using bitlen_eq_zero_iff [of m] bitlen_nonneg [of m] by linarith
  have "(2::real) powi (bitlen m - 1) = of_int (2 ^ nat (bitlen m - 1))"
    using one by (intro two_powi_nat) simp
  also have "\<dots> \<le> of_int m" using b(1) by (simp only: of_int_le_iff)
  finally show "(2::real) powi (bitlen m - 1) \<le> of_int m" .
  have "of_int m < (of_int (2 ^ nat (bitlen m)) :: real)" using b(2) by (simp only: of_int_less_iff)
  also have "\<dots> = 2 powi (bitlen m)" using one by (intro two_powi_nat [symmetric]) simp
  finally show "of_int m < (2::real) powi (bitlen m)" .
qed

text \<open>The bounds of \<open>rne_shift\<close>, read in the reals.\<close>

lemma rne_shift_real_lower:
  assumes "of_int c * 2 ^ k \<le> (of_int a :: real)"
  shows "c \<le> rne_shift a k"
proof -
  from assms have "(of_int (c * 2 ^ k) :: real) \<le> of_int a" by simp
  then have "c * 2 ^ k \<le> a" by (simp only: of_int_le_iff)
  then show ?thesis by (rule rne_shift_lower)
qed

lemma rne_shift_real_upper:
  assumes "(of_int a :: real) \<le> of_int c * 2 ^ k"
  shows "rne_shift a k \<le> c"
proof -
  from assms have "(of_int a :: real) \<le> of_int (c * 2 ^ k)" by simp
  then have "a \<le> c * 2 ^ k" by (simp only: of_int_le_iff)
  then show ?thesis by (rule rne_shift_upper)
qed

lemma round64_cases:
  assumes "0 < m"
  obtains (exact) "max (e + bitlen m - 53) (- 1074) \<le> e"
      "round64 m e = (if 1024 < e + bitlen m then Infinity False else Finite m e)"
  | (rounded) E k where "E = max (e + bitlen m - 53) (- 1074)" "e < E" "k = nat (E - e)"
      "round64 m e = (if 1024 < E + bitlen (rne_shift m k) then Infinity False
                      else Finite (rne_shift m k) E)"
  using assms by (cases "max (e + bitlen m - 53) (- 1074) \<le> e") (auto simp: round64_def Let_def)

lemma fval_uminus: "fval (- m) e = - fval m e"
  by (simp add: fval_def)

lemma trunc_scaled_uminus: "trunc_scaled (- m) e = - trunc_scaled m e"
  by (simp add: trunc_scaled_def sgn_if)

lemma fval_sign: "0 \<le> fval m e \<longleftrightarrow> 0 \<le> m"
proof -
  have "\<not> (2::real) powi e \<le> 0"
    using two_powi_pos [of e] by linarith
  then show ?thesis
    by (auto simp: fval_def zero_le_mult_iff)
qed

lemma trunc_scaled_trunc: "trunc_scaled m e = trunc_toward_zero (fval m e)"
proof (cases "0 \<le> m")
  case True
  then show ?thesis
    by (simp add: trunc_scaled_floor trunc_toward_zero_def fval_sign)
next
  case False
  then have "trunc_scaled (- m) e = \<lfloor>fval (- m) e\<rfloor>"
    by (intro trunc_scaled_floor) simp
  then have "trunc_scaled m e = \<lceil>fval m e\<rceil>"
    by (simp add: trunc_scaled_uminus fval_uminus ceiling_def)
  with False show ?thesis
    by (simp add: trunc_toward_zero_def fval_sign)
qed

lemma round64_zero: "round64 0 e = Finite 0 e"
  by (simp add: round64_def)

lemma int_of_float64_in_range:
  "- (2 ^ 63) \<le> trunc_scaled q E \<Longrightarrow> trunc_scaled q E < 2 ^ 63 \<Longrightarrow>
   int_of_float64 oor (Finite q E) = trunc_scaled q E"
  by (simp add: int_of_float64_def Let_def)

lemma round64_uminus:
  "round64 x e = Finite q E \<Longrightarrow> round64 (- x) e = Finite (- q) E"
  by (auto simp: round64_def Let_def sgn_if split: if_splits)

lemma fval_mult_left: "fval (c * m) e = of_int c * fval m e"
  by (simp add: fval_def)

lemma fval_shift: "0 \<le> j \<Longrightarrow> fval (m * 2 ^ nat j) e = fval m (e + j)"
  by (simp add: fval_def power_int_add two_powi_nat)

lemma fval_less_powi: "\<bar>p\<bar> < 2 ^ 53 \<Longrightarrow> 0 \<le> p \<Longrightarrow> fval p r < 2 powi (53 + r)"
proof -
  assume "\<bar>p\<bar> < 2 ^ 53" "0 \<le> p"
  then have "(of_int p :: real) < of_int (2 ^ 53)" by simp
  then have "of_int p * (2::real) powi r < 2 ^ 53 * 2 powi r"
    by (intro mult_strict_right_mono) simp_all
  also have "\<dots> = 2 powi (53 + r)" by (simp add: power_int_add)
  finally show ?thesis by (simp add: fval_def)
qed

lemma two_powi_less: "(2::real) powi a < 2 powi b \<longleftrightarrow> a < b"
  using two_powi_le [of b a] by (auto simp: not_le [symmetric])

text \<open>A positive number that binary64 holds is returned by the rounding as it is.\<close>

lemma round64_representable_pos:
  assumes x: "0 < x" and eq: "fval x e = fval p r" and p: "binary64 p r"
  shows "\<exists>q E. round64 x e = Finite q E \<and> fval q E = fval x e"
proof -
  have ppos: "0 \<le> p"
    using x eq fval_sign [of x e] fval_sign [of p r] by simp
  have "(2::real) powi (bitlen x - 1 + e) = 2 powi (bitlen x - 1) * 2 powi e"
    by (simp add: power_int_add)
  also have "\<dots> \<le> of_int x * 2 powi e"
    using bitlen_powi(1) [OF x] by (intro mult_right_mono) simp_all
  also have "\<dots> = fval p r" using eq by (simp add: fval_def)
  also have "\<dots> < 2 powi (53 + r)"
    using p ppos by (intro fval_less_powi) (simp_all add: binary64_def)
  finally have "bitlen x - 1 + e < 53 + r" by (simp only: two_powi_less)
  then have size: "e + bitlen x - 53 \<le> r" by simp
  have r: "- 1074 \<le> r" "r \<le> 971" using p by (simp_all add: binary64_def)
  from x show ?thesis
  proof (cases rule: round64_cases [of x e])
    case exact
    with size r have "round64 x e = Finite x e" by simp
    then show ?thesis by simp
  next
    case (rounded E k)
    have Er: "E \<le> r" using rounded(1) size r by simp
    have k: "int k = E - e" using rounded by simp
    define C where "C = p * 2 ^ nat (r - E)"
    have C: "fval C E = fval p r"
      unfolding C_def using Er fval_shift [of "r - E" p E] by simp
    have "of_int x = fval x e * (2::real) powi (- e)"
      by (simp add: fval_def power_int_minus field_simps)
    also have "\<dots> = of_int C * (2 powi E * 2 powi (- e))"
      using eq C by (simp add: fval_def)
    also have "2 powi E * 2 powi (- e) = (2::real) powi (int k)"
      unfolding k by (simp add: power_int_add [symmetric])
    also have "of_int C * (2::real) powi (int k) = of_int (C * 2 ^ k)"
      by (simp add: power_int_of_nat)
    finally have xC: "x = C * 2 ^ k" by (simp only: of_int_eq_iff)
    then have q: "rne_shift x k = C"
      by (simp add: rne_shift_def Let_def)
    have "of_int C * (2::real) powi E < 2 powi (53 + r)"
      using fval_less_powi [of p r] p ppos C by (simp add: binary64_def fval_def)
    also have "\<dots> \<le> 2 powi 1024" using r by (simp only: two_powi_le)
    also have "\<dots> = 2 powi (1024 - E) * 2 powi E"
      by (simp add: power_int_add [symmetric])
    finally have "of_int C < (2::real) powi (1024 - E)" by simp
    also have "\<dots> = of_int (2 ^ nat (1024 - E))"
      using Er r by (intro two_powi_nat) simp
    finally have "C < 2 ^ nat (1024 - E)" by (simp only: of_int_less_iff)
    then have "bitlen C \<le> 1024 - E"
      using Er r by (simp add: bitlen_le_iff_power)
    then have "round64 x e = Finite C E" using rounded(4) q by simp
    with C eq show ?thesis by simp
  qed
qed

lemma binary64_uminus: "binary64 (- p) r = binary64 p r"
  by (simp add: binary64_def)

lemma round64_representable:
  assumes eq: "fval x e = fval p r" and p: "binary64 p r"
  shows "\<exists>q E. round64 x e = Finite q E \<and> fval q E = fval x e"
proof -
  consider "x = 0" | "0 < x" | "x < 0" by linarith
  then show ?thesis
  proof cases
    case 1
    then show ?thesis by (simp add: round64_zero fval_def)
  next
    case 2
    then show ?thesis using eq p by (rule round64_representable_pos)
  next
    case 3
    then have "0 < - x" by simp
    moreover have "fval (- x) e = fval (- p) r" using eq by (simp add: fval_uminus)
    moreover have "binary64 (- p) r" using p by (simp add: binary64_uminus)
    ultimately obtain q E where "round64 (- x) e = Finite q E" "fval q E = fval (- x) e"
      using round64_representable_pos by blast
    then have "round64 x e = Finite (- q) E" "fval (- q) E = fval x e"
      using round64_uminus [of "- x" e q E] by (simp_all add: fval_uminus)
    then show ?thesis by blast
  qed
qed

text \<open>Rounding to nearest does not cross a number that binary64 holds.\<close>

lemma round64_lower_rep:
  assumes m: "0 < m" and a: "0 \<le> a" "a < 2 ^ 53" and b: "- 1074 \<le> b"
    and le: "fval a b \<le> fval m e" and r: "round64 m e = Finite q E"
  shows "0 \<le> q \<and> fval a b \<le> fval q E"
  using m
proof (cases rule: round64_cases [of m e])
  case exact
  with r have "q = m" "E = e" by (auto split: if_splits)
  with m le show ?thesis by simp
next
  case (rounded E' k)
  with r have q: "q = rne_shift m k" and E: "E = E'" by (auto split: if_splits)
  have k: "int k = E - e" using rounded E by simp
  have "0 * 2 ^ k \<le> m" using m by simp
  then have q0: "0 \<le> q" unfolding q by (rule rne_shift_lower)
  have pk: "(2::real) ^ k = 2 powi (E - e)"
    using k by (metis power_int_of_nat)
  show ?thesis
  proof (cases "E \<le> b")
    case True
    define C where "C = a * 2 ^ nat (b - E)"
    have C: "fval C E = fval a b"
      unfolding C_def using True fval_shift [of "b - E" a E] by simp
    have "of_int C * (2::real) powi E * 2 powi (- e) \<le> of_int m * 2 powi e * 2 powi (- e)"
      using le C unfolding fval_def by (intro mult_right_mono) simp_all
    also have "\<dots> = of_int m" by (simp add: power_int_minus field_simps)
    finally have "of_int C * ((2::real) powi E * 2 powi (- e)) \<le> of_int m"
      by (simp add: mult.assoc)
    moreover have "(2::real) powi E * 2 powi (- e) = 2 ^ k"
      unfolding pk by (simp add: power_int_add [symmetric])
    ultimately have "of_int C * 2 ^ k \<le> (of_int m :: real)" by simp
    then have "C \<le> q" unfolding q by (rule rne_shift_real_lower)
    then have "(of_int C :: real) \<le> of_int q" by (simp only: of_int_le_iff)
    then have "fval C E \<le> fval q E"
      unfolding fval_def by (intro mult_right_mono) simp_all
    with q0 C show ?thesis by simp
  next
    case False
    then have bE: "b + 1 \<le> E" by simp
    with rounded E b have Eeq: "E = e + bitlen m - 53" by (simp add: max_def split: if_splits)
    then have "bitlen m - 1 = 52 + (E - e)" by simp
    then have "(2::real) powi (bitlen m - 1) = 2 powi 52 * 2 powi (E - e)"
      by (simp add: power_int_add)
    with bitlen_powi(1) [OF m] have "of_int (2 ^ 52) * 2 ^ k \<le> (of_int m :: real)"
      unfolding pk by simp
    then have "2 ^ 52 \<le> q" unfolding q by (rule rne_shift_real_lower)
    then have "(of_int (2 ^ 52) :: real) \<le> of_int q" by (simp only: of_int_le_iff)
    then have "of_int (2 ^ 52) * (2::real) powi E \<le> of_int q * 2 powi E"
      by (intro mult_right_mono) simp_all
    then have big: "(2::real) powi (52 + E) \<le> fval q E"
      by (simp add: fval_def power_int_add)
    have "fval a b < 2 powi (53 + b)"
      using a by (intro fval_less_powi) simp_all
    also have "\<dots> \<le> 2 powi (52 + E)" using bE by (simp only: two_powi_le) 
    finally have "fval a b \<le> fval q E" using big by simp
    with q0 show ?thesis by simp
  qed
qed

lemma round64_upper_rep:
  assumes m: "0 < m" and a: "0 \<le> a" "a < 2 ^ 53" and b: "- 1074 \<le> b" "b \<le> 971"
    and le: "fval m e \<le> fval a b"
  shows "\<exists>q E. round64 m e = Finite q E \<and> 0 \<le> q \<and> fval q E \<le> fval a b"
proof -
  have "(2::real) powi (bitlen m - 1 + e) = 2 powi (bitlen m - 1) * 2 powi e"
    by (simp add: power_int_add)
  also have "\<dots> \<le> of_int m * 2 powi e"
    using bitlen_powi(1) [OF m] by (intro mult_right_mono) simp_all
  also have "\<dots> \<le> fval a b" using le by (simp add: fval_def)
  also have lt: "\<dots> < 2 powi (53 + b)"
    using a by (intro fval_less_powi) simp_all
  finally have "bitlen m - 1 + e < 53 + b" by (simp only: two_powi_less)
  then have size: "e + bitlen m - 53 \<le> b" by simp
  from m show ?thesis
  proof (cases rule: round64_cases [of m e])
    case exact
    with size b have "round64 m e = Finite m e" by simp
    with m le show ?thesis by simp
  next
    case (rounded E k)
    have Eb: "E \<le> b" using rounded(1) size b by simp
    have k: "int k = E - e" using rounded by simp
    have pk: "(2::real) ^ k = 2 powi (E - e)"
      using k by (metis power_int_of_nat)
    define C where "C = a * 2 ^ nat (b - E)"
    have C: "fval C E = fval a b"
      unfolding C_def using Eb fval_shift [of "b - E" a E] by simp
    have "of_int m = of_int m * (2::real) powi e * 2 powi (- e)"
      by (simp add: power_int_minus field_simps)
    also have "\<dots> \<le> of_int C * 2 powi E * 2 powi (- e)"
      using le C unfolding fval_def by (intro mult_right_mono) simp_all
    also have "\<dots> = of_int C * (2 powi E * 2 powi (- e))" by (simp add: mult.assoc)
    also have "(2::real) powi E * 2 powi (- e) = 2 ^ k"
      unfolding pk by (simp add: power_int_add [symmetric])
    finally have "(of_int m :: real) \<le> of_int C * 2 ^ k" .
    then have q: "rne_shift m k \<le> C" by (rule rne_shift_real_upper)
    have "0 * 2 ^ k \<le> m" using m by simp
    then have q0: "0 \<le> rne_shift m k" by (rule rne_shift_lower)
    have "(of_int (rne_shift m k) :: real) \<le> of_int C" using q by (simp only: of_int_le_iff)
    then have up: "fval (rne_shift m k) E \<le> fval C E"
      unfolding fval_def by (intro mult_right_mono) simp_all
    also have "\<dots> < 2 powi (53 + b)" using C lt by simp
    also have "\<dots> \<le> 2 powi 1024" using b by (simp only: two_powi_le)
    also have "\<dots> = 2 powi (1024 - E) * 2 powi E"
      by (simp add: power_int_add [symmetric])
    finally have "of_int (rne_shift m k) < (2::real) powi (1024 - E)"
      by (simp add: fval_def)
    also have "\<dots> = of_int (2 ^ nat (1024 - E))"
      using Eb b by (intro two_powi_nat) simp
    finally have "rne_shift m k < 2 ^ nat (1024 - E)" by (simp only: of_int_less_iff)
    then have "bitlen (rne_shift m k) \<le> 1024 - E"
      using Eb b by (simp add: bitlen_le_iff_power)
    then have "round64 m e = Finite (rne_shift m k) E" using rounded(4) by simp
    with q0 up C show ?thesis by simp
  qed
qed

text \<open>Every integer but zero is an odd integer times a power of two, in one way only.\<close>

lemma odd_part: "x \<noteq> 0 \<Longrightarrow> \<exists>c j. x = c * 2 ^ j \<and> odd c" for x :: int
proof (induction "nat \<bar>x\<bar>" arbitrary: x rule: less_induct)
  case less
  show ?case
  proof (cases "odd x")
    case True
    then have "x = x * 2 ^ 0 \<and> odd x" by simp
    then show ?thesis by blast
  next
    case False
    then obtain y where y: "x = 2 * y" by (auto elim: evenE)
    with less.prems have "y \<noteq> 0" "nat \<bar>y\<bar> < nat \<bar>x\<bar>" by auto
    from less.hyps [OF this(2) this(1)] obtain c j where "y = c * 2 ^ j" "odd c" by blast
    with y have "x = c * 2 ^ Suc j \<and> odd c" by simp
    then show ?thesis by blast
  qed
qed

lemma dyadic_odd_le:
  assumes eq: "of_int x * 2 powi A = (of_int y * 2 powi B :: real)"
    and "odd x" and "A \<le> B"
  shows "x = y \<and> A = B"
proof -
  have "of_int x = of_int x * (2::real) powi A * 2 powi (- A)"
    by (simp add: power_int_minus field_simps)
  also have "\<dots> = of_int y * (2 powi B * 2 powi (- A))"
    using eq by (simp add: mult.assoc)
  also have "2 powi B * 2 powi (- A) = (2::real) powi (B - A)"
    by (simp add: power_int_add [symmetric])
  also have "(2::real) powi (B - A) = of_int (2 ^ nat (B - A))"
    using \<open>A \<le> B\<close> by (intro two_powi_nat) simp
  also have "of_int y * (of_int (2 ^ nat (B - A)) :: real) = of_int (y * 2 ^ nat (B - A))"
    by simp
  finally have x: "x = y * 2 ^ nat (B - A)" by (simp only: of_int_eq_iff)
  have "nat (B - A) = 0"
  proof (rule ccontr)
    assume "nat (B - A) \<noteq> 0"
    then have "even (y * 2 ^ nat (B - A))" by simp
    with x \<open>odd x\<close> show False by simp
  qed
  with x \<open>A \<le> B\<close> show ?thesis by simp
qed

lemma dyadic_odd_unique:
  assumes "of_int x * 2 powi A = (of_int y * 2 powi B :: real)" "odd x" "odd y"
  shows "x = y"
proof (cases "A \<le> B")
  case True
  with assms(1,2) show ?thesis using dyadic_odd_le by blast
next
  case False
  then have "B \<le> A" by simp
  with assms(1,3) dyadic_odd_le [of y B x A] show ?thesis by simp
qed

text \<open>
  If the product of an integer and a float64 is a number that binary64 holds, and is not
  zero, the integer has at most 53 significant bits.
\<close>

lemma factor_of_representable:
  assumes eq: "of_int d * fval m e = fval p r" and nz: "d \<noteq> 0" "m \<noteq> 0"
    and p: "\<bar>p\<bar> < 2 ^ 53"
  shows "\<exists>c j. d = c * 2 ^ j \<and> \<bar>c\<bar> < 2 ^ 53"
proof -
  have "of_int d * fval m e \<noteq> 0" using nz by (simp add: fval_def)
  then have "fval p r \<noteq> 0" by (simp only: eq not_False_eq_True)
  then have "p \<noteq> 0" by (auto simp: fval_def)
  from odd_part [OF nz(1)] obtain cd jd where d: "d = cd * 2 ^ jd" "odd cd" by blast
  from odd_part [OF nz(2)] obtain cm jm where m: "m = cm * 2 ^ jm" "odd cm" by blast
  from odd_part [OF \<open>p \<noteq> 0\<close>] obtain cp jp where pp: "p = cp * 2 ^ jp" "odd cp" by blast
  have "of_int (cd * cm) * (2::real) powi (int jd + int jm + e) =
        of_int d * fval m e"
    unfolding d(1) m(1) fval_def by (simp add: power_int_add power_int_of_nat)
  also have "\<dots> = fval p r" by (rule eq)
  also have "\<dots> = of_int cp * 2 powi (int jp + r)"
    unfolding pp(1) fval_def by (simp add: power_int_add power_int_of_nat)
  finally have "cd * cm = cp"
    using d(2) m(2) pp(2) by (intro dyadic_odd_unique) simp_all
  moreover have "1 \<le> \<bar>cm\<bar>" using m(2) by (cases "cm = 0") auto
  ultimately have "\<bar>cd\<bar> \<le> \<bar>cp\<bar>"
    by (metis abs_mult mult.right_neutral mult_left_mono abs_ge_zero)
  also have "\<bar>cp\<bar> \<le> \<bar>cp\<bar> * 2 ^ jp" by (simp add: mult_le_cancel_left1)
  also have "\<dots> = \<bar>p\<bar>" unfolding pp(1) by (simp add: abs_mult)
  finally have "\<bar>cd\<bar> < 2 ^ 53" using p by simp
  with d(1) show ?thesis by blast
qed

lemma int_representable:
  assumes d: "d = c * 2 ^ j" "\<bar>c\<bar> < 2 ^ 53" and range: "\<bar>d\<bar> \<le> 2 ^ 63"
  shows "\<exists>a b. of_int d = fval a b \<and> binary64 a b"
proof (cases "d = 0")
  case True
  then have "of_int d = fval 0 0 \<and> binary64 0 0" by (simp add: fval_def binary64_def)
  then show ?thesis by blast
next
  case False
  with d(1) have "c \<noteq> 0" by auto
  then have "1 \<le> \<bar>c\<bar>" by simp
  then have "(2::int) ^ j \<le> \<bar>c\<bar> * 2 ^ j" by (simp add: mult_le_cancel_right1)
  also have "\<dots> = \<bar>d\<bar>" unfolding d(1) by (simp add: abs_mult)
  finally have "(2::int) ^ j \<le> 2 ^ 63" using range by simp
  then have "j \<le> 63" by (rule power_le_imp_le_exp [rotated]) simp
  then have "binary64 c (int j)" using d(2) by (simp add: binary64_def)
  moreover have "of_int d = fval c (int j)"
    unfolding d(1) fval_def by (simp add: power_int_of_nat)
  ultimately show ?thesis by blast
qed

lemma float64_of_int_representable:
  assumes "of_int d = fval a b" "binary64 a b"
  shows "\<exists>q E. float64_of_int d = Finite q E \<and> fval q E = of_int d"
proof -
  have "fval d 0 = fval a b" using assms(1) by (simp add: fval_def)
  from round64_representable [OF this assms(2)] show ?thesis
    by (simp add: float64_of_int_def fval_def)
qed

lemma bitlen_le_64: "0 < d \<Longrightarrow> d \<le> 2 ^ 63 \<Longrightarrow> bitlen d \<le> 64"
  by (simp add: bitlen_le_iff_power)

text \<open>The conversion of a positive \<^verbatim>\<open>int\<close> errs by a factor of at most \<open>1 + 2^-53\<close>.\<close>

lemma float64_of_int_close:
  assumes d: "0 < d" "d \<le> 2 ^ 63"
  shows "\<exists>q E. float64_of_int d = Finite q E \<and> 0 \<le> q \<and>
           fval q E \<le> of_int d * (1 + 2 powi (- 53))"
proof -
  have n: "bitlen d \<le> 64" using d by (rule bitlen_le_64)
  from d(1) show ?thesis
  proof (cases rule: round64_cases [of d 0])
    case exact
    with n have "float64_of_int d = Finite d 0" by (simp add: float64_of_int_def)
    moreover have "fval d 0 \<le> of_int d * (1 + 2 powi (- 53))"
      using d(1) by (simp add: fval_def algebra_simps)
    ultimately show ?thesis using d(1) by simp
  next
    case (rounded E k)
    have E: "E = bitlen d - 53" using rounded(1,2) by (simp add: max_def split: if_splits)
    have k: "int k = bitlen d - 53" using rounded E by simp
    let ?q = "rne_shift d k"
    have "0 * 2 ^ k \<le> d" using d by simp
    then have q0: "0 \<le> ?q" by (rule rne_shift_lower)
    define X P where "X = ?q * 2 ^ k" and "P = (2::int) ^ k"
    have "2 * \<bar>d - X\<bar> \<le> P" unfolding X_def P_def using rne_shift_nearest [of d k] by simp
    then have "2 * X \<le> 2 * d + P" by arith
    then have near: "2 * (?q * 2 ^ k) \<le> 2 * d + 2 ^ k" unfolding X_def P_def .
    have "(2::int) ^ 52 * 2 ^ k = 2 ^ (52 + k)" by (simp add: power_add)
    also have "52 + k = nat (bitlen d - 1)" using k by linarith
    also have "2 ^ nat (bitlen d - 1) \<le> d" using bitlen_bounds [OF d(1)] by simp
    finally have big: "2 ^ 52 * 2 ^ k \<le> d" .
    have "2 ^ 53 * (?q * 2 ^ k) \<le> 2 ^ 53 * d + 2 ^ 52 * 2 ^ k" using near by simp
    also have "\<dots> \<le> 2 ^ 53 * d + d" using big by simp
    finally have "(of_int (2 ^ 53 * (?q * 2 ^ k)) :: real) \<le> of_int (2 ^ 53 * d + d)"
      by (simp only: of_int_le_iff)
    then have "2 ^ 53 * (of_int ?q * (2::real) ^ k) \<le> 2 ^ 53 * of_int d + of_int d"
      by simp
    then have "of_int ?q * (2::real) ^ k \<le> (2 ^ 53 * of_int d + of_int d) / 2 ^ 53"
      by (simp add: field_simps)
    also have "\<dots> = of_int d * (1 + 2 powi (- 53))"
      by (simp add: power_int_minus field_simps)
    finally have "of_int ?q * (2::real) ^ k \<le> of_int d * (1 + 2 powi (- 53))" .
    moreover have "(2::real) powi E = 2 ^ k"
      using k E by (metis power_int_of_nat)
    ultimately have close: "fval ?q E \<le> of_int d * (1 + 2 powi (- 53))"
      unfolding fval_def by (simp only:)
    have "d < 2 ^ nat (bitlen d)" using bitlen_bounds [OF d(1)] by simp
    also have "nat (bitlen d) = 53 + k" using k by linarith
    finally have "d \<le> 2 ^ 53 * 2 ^ k" by (simp add: power_add)
    then have "?q \<le> 2 ^ 53" by (rule rne_shift_upper)
    then have "?q < 2 ^ nat 54" by simp
    then have "bitlen ?q \<le> 54" by (simp only: bitlen_le_iff_power) simp
    with n E have "\<not> 1024 < E + bitlen ?q" by simp
    with rounded(4) have "float64_of_int d = Finite ?q E" by (simp add: float64_of_int_def)
    with q0 close show ?thesis by blast
  qed
qed

lemma float64_of_int_finite:
  assumes "\<bar>d\<bar> \<le> 2 ^ 63"
  shows "\<exists>q E. float64_of_int d = Finite q E"
proof -
  consider "d = 0" | "0 < d" | "d < 0" by linarith
  then show ?thesis
  proof cases
    case 1
    then show ?thesis by (simp add: float64_of_int_def round64_zero)
  next
    case 2
    with assms float64_of_int_close [of d] show ?thesis by auto
  next
    case 3
    with assms float64_of_int_close [of "- d"] obtain q E where
      "round64 (- d) 0 = Finite q E" by (auto simp: float64_of_int_def)
    from round64_uminus [OF this] show ?thesis by (simp add: float64_of_int_def)
  qed
qed

lemma trunc_scaled_zero: "trunc_scaled 0 e = 0"
  by (simp add: trunc_scaled_def)

text \<open>
  Where the product of the delay, an \<^verbatim>\<open>int\<close>, and the factor is a number that binary64
  holds and its integer part fits the \<^verbatim>\<open>int\<close>, the code computes that integer part.
\<close>

lemma newBackoff_exact:
  assumes range: "\<bar>d\<bar> \<le> 2 ^ 63"
    and prod: "of_int d * fval m e = fval p r" "binary64 p r"
    and fit: "- (2 ^ 63) \<le> trunc_toward_zero (of_int d * fval m e)"
      "trunc_toward_zero (of_int d * fval m e) < 2 ^ 63"
  shows "newBackoff oor d (Finite m e) = trunc_toward_zero (of_int d * fval m e)"
proof (cases "d = 0 \<or> m = 0")
  case True
  from float64_of_int_finite [OF range] obtain a b where
    conv: "float64_of_int d = Finite a b" by blast
  have "a = 0" if "d = 0"
    using that conv by (simp add: float64_of_int_def round64_zero)
  with True have "a * m = 0" by auto
  then have fm: "fmul (float64_of_int d) (Finite m e) = Finite 0 (b + e)"
    by (simp only: conv fmul.simps round64_zero)
  have z: "of_int d * fval m e = 0" using True by (auto simp: fval_def)
  show ?thesis
    unfolding newBackoff_def fm z
    by (simp add: int_of_float64_def trunc_scaled_zero trunc_toward_zero_def)
next
  case False
  then have nz: "d \<noteq> 0" "m \<noteq> 0" by simp_all
  from prod(2) have "\<bar>p\<bar> < 2 ^ 53" by (simp add: binary64_def)
  from factor_of_representable [OF prod(1) nz this] obtain c j where
    "d = c * 2 ^ j" "\<bar>c\<bar> < 2 ^ 53" by blast
  from int_representable [OF this range] obtain a b where
    "of_int d = fval a b" "binary64 a b" by blast
  from float64_of_int_representable [OF this] obtain q E where
    conv: "float64_of_int d = Finite q E" and q: "fval q E = of_int d" by blast
  have "fval (q * m) (E + e) = fval q E * fval m e"
    by (simp add: fval_def power_int_add)
  then have "fval (q * m) (E + e) = fval p r" using q prod(1) by simp
  from round64_representable [OF this prod(2)] obtain q' E' where
    r: "round64 (q * m) (E + e) = Finite q' E'" and v: "fval q' E' = fval (q * m) (E + e)"
    by blast
  have val: "fval q' E' = of_int d * fval m e"
    using v \<open>fval (q * m) (E + e) = fval p r\<close> prod(1) by simp
  have "trunc_scaled q' E' = trunc_toward_zero (of_int d * fval m e)"
    by (simp add: trunc_scaled_trunc val)
  with fit show ?thesis
    by (simp add: newBackoff_def conv r int_of_float64_in_range)
qed

text \<open>
  With a factor of at least 1, a delay that is not negative and converts to float64 as
  it is does not shrink, as long as the product stays at or below the largest float64
  under \<open>2^63\<close>.
\<close>

lemma newBackoff_grows:
  assumes d: "0 \<le> d" "of_int d = fval a b" "binary64 a b"
    and f: "1 \<le> fval m e" and p: "of_int d * fval m e \<le> 2 ^ 63 - 1024"
  shows "d \<le> newBackoff oor d (Finite m e) \<and> newBackoff oor d (Finite m e) < 2 ^ 63"
proof -
  from float64_of_int_representable [OF d(2,3)] obtain q E where
    conv: "float64_of_int d = Finite q E" and q: "fval q E = of_int d" by blast
  have prod: "fmul (float64_of_int d) (Finite m e) = round64 (q * m) (E + e)"
    by (simp add: conv)
  have val: "fval (q * m) (E + e) = of_int d * fval m e"
    using q by (simp add: fval_def power_int_add)
  have "0 \<le> m" using f fval_sign [of m e] by linarith
  moreover have "m \<noteq> 0" using f by (auto simp: fval_def)
  ultimately have m: "0 < m" by simp
  show ?thesis
  proof (cases "d = 0")
    case True
    then have "q = 0" using q by (auto simp: fval_def)
    with True prod show ?thesis
      by (simp add: newBackoff_def int_of_float64_def trunc_scaled_zero round64_zero)
  next
    case False
    with d(1) have dpos: "0 < d" by simp
    then have "0 < fval q E" using q by simp
    then have "0 < q" using fval_sign [of q E] by (cases "q = 0") (auto simp: fval_def)
    with m have qm: "0 < q * m" by simp
    have apos: "0 \<le> a" using d(1,2) fval_sign [of a b] by simp
    have a53: "a < 2 ^ 53" "- 1074 \<le> b" using d(3) by (simp_all add: binary64_def abs_less_iff)
    have "of_int d * 1 \<le> of_int d * fval m e"
      using d(1) f by (intro mult_left_mono) simp_all
    then have low: "fval a b \<le> fval (q * m) (E + e)" using d(2) val by simp
    have top: "fval (2 ^ 53 - 1) 10 = 2 ^ 63 - 1024" by (simp add: fval_def)
    have "fval (q * m) (E + e) \<le> fval (2 ^ 53 - 1) 10" using p val top by simp
    from round64_upper_rep [OF qm _ _ _ _ this] obtain q' E' where
      r: "round64 (q * m) (E + e) = Finite q' E'" and q': "0 \<le> q'"
      and up: "fval q' E' \<le> fval (2 ^ 53 - 1) 10"
      by auto
    from round64_lower_rep [OF qm apos a53 low r] have lo: "fval a b \<le> fval q' E'" by simp
    have t: "trunc_scaled q' E' = \<lfloor>fval q' E'\<rfloor>" using q' by (rule trunc_scaled_floor)
    have t1: "d \<le> trunc_scaled q' E'"
      unfolding t using lo d(2) by (simp add: le_floor_iff)
    have "\<lfloor>fval q' E'\<rfloor> \<le> \<lfloor>(2::real) ^ 63 - 1024\<rfloor>"
      using up top by (intro floor_mono) simp
    also have "\<lfloor>(2::real) ^ 63 - 1024\<rfloor> = 2 ^ 63 - 1024"
      by (metis floor_of_int of_int_diff of_int_numeral of_int_power)
    finally have t2: "trunc_scaled q' E' \<le> 2 ^ 63 - 1024" unfolding t .
    have "int_of_float64 oor (Finite q' E') = trunc_scaled q' E'"
      using t1 t2 d(1) by (intro int_of_float64_in_range) simp_all
    with t1 t2 show ?thesis by (simp add: newBackoff_def prod r)
  qed
qed

lemma slack: "x \<le> 2 ^ 63 - 2048 \<Longrightarrow> x * (1 + 2 powi (- 53)) \<le> 2 ^ 63 - 1024" for x :: real
proof -
  assume x: "x \<le> 2 ^ 63 - 2048"
  have "x * (1 + 2 powi (- 53)) \<le> (2 ^ 63 - 2048) * (1 + 2 powi (- 53))"
    using x by (intro mult_right_mono) simp_all
  also have "\<dots> \<le> 2 ^ 63 - 1024" by (simp add: power_int_minus)
  finally show ?thesis .
qed

text \<open>
  With a factor of at least 1 the scaled delay stays at or above any number below the
  delay that is not negative and that binary64 holds, as long as the product leaves room
  for the rounding of the conversion under \<open>2^63\<close>.
\<close>

lemma newBackoff_above:
  assumes c: "0 \<le> c" "of_int c = fval a b" "binary64 a b" and d: "c \<le> d"
    and f: "1 \<le> fval m e" and p: "of_int d * fval m e \<le> 2 ^ 63 - 2048"
  shows "c \<le> newBackoff oor d (Finite m e) \<and> newBackoff oor d (Finite m e) < 2 ^ 63"
proof -
  have "0 \<le> m" using f fval_sign [of m e] by linarith
  moreover have "m \<noteq> 0" using f by (auto simp: fval_def)
  ultimately have m: "0 < m" by simp
  have apos: "0 \<le> a" using c(1,2) fval_sign [of a b] by simp
  have a53: "a < 2 ^ 53" "- 1074 \<le> b" using c(3) by (simp_all add: binary64_def abs_less_iff)
  have d0: "0 \<le> d" using c(1) d by simp
  show ?thesis
  proof (cases "d = 0")
    case True
    with c(1) d have "c = 0" by simp
    moreover have "fmul (float64_of_int d) (Finite m e) = Finite 0 e"
      using True by (simp add: float64_of_int_def round64_zero)
    ultimately show ?thesis
      by (simp add: newBackoff_def int_of_float64_def trunc_scaled_zero)
  next
    case False
    with d0 have dpos: "0 < d" by simp
    have "of_int d * 1 \<le> of_int d * fval m e"
      using d0 f by (intro mult_left_mono) simp_all
    with p have "(of_int d :: real) \<le> 2 ^ 63 - 2048" by simp
    also have "\<dots> \<le> of_int (2 ^ 63)" by simp
    finally have d63: "d \<le> 2 ^ 63" by (simp only: of_int_le_iff)
    from float64_of_int_close [OF dpos d63] obtain q E where
      conv: "float64_of_int d = Finite q E" and q0: "0 \<le> q"
      and close: "fval q E \<le> of_int d * (1 + 2 powi (- 53))" by blast
    have rq: "round64 d 0 = Finite q E" using conv by (simp add: float64_of_int_def)
    have dval: "fval d 0 = of_int d" by (simp add: fval_def)
    have "fval a b \<le> fval d 0" using c(2) d dval by simp
    from round64_lower_rep [OF dpos apos a53 this rq] have cq: "fval a b \<le> fval q E" by simp
    have "fval 1 0 \<le> fval d 0" using dpos by (simp add: fval_def)
    from round64_lower_rep [OF dpos _ _ _ this rq] have "1 \<le> fval q E" by (simp add: fval_def)
    then have "q \<noteq> 0" by (auto simp: fval_def)
    with q0 m have qm: "0 < q * m" by simp
    have prod: "fmul (float64_of_int d) (Finite m e) = round64 (q * m) (E + e)"
      by (simp add: conv)
    have val: "fval (q * m) (E + e) = fval q E * fval m e"
      by (simp add: fval_def power_int_add)
    have qpos: "0 \<le> fval q E" using q0 fval_sign [of q E] by simp
    have "fval q E * 1 \<le> fval q E * fval m e"
      using qpos f by (intro mult_left_mono) simp_all
    with cq have low: "fval a b \<le> fval (q * m) (E + e)" by (simp add: val)
    have "fval q E * fval m e \<le> of_int d * (1 + 2 powi (- 53)) * fval m e"
      using close f by (intro mult_right_mono) simp_all
    also have "\<dots> = of_int d * fval m e * (1 + 2 powi (- 53))" by (simp add: mult_ac)
    also have "\<dots> \<le> 2 ^ 63 - 1024" using p by (rule slack)
    finally have "fval (q * m) (E + e) \<le> 2 ^ 63 - 1024" by (simp only: val)
    moreover have top: "fval (2 ^ 53 - 1) 10 = 2 ^ 63 - 1024" by (simp add: fval_def)
    ultimately have "fval (q * m) (E + e) \<le> fval (2 ^ 53 - 1) 10" by simp
    from round64_upper_rep [OF qm _ _ _ _ this] obtain q' E' where
      r: "round64 (q * m) (E + e) = Finite q' E'" and q': "0 \<le> q'"
      and up: "fval q' E' \<le> fval (2 ^ 53 - 1) 10"
      by auto
    from round64_lower_rep [OF qm apos a53 low r] have lo: "fval a b \<le> fval q' E'" by simp
    have t: "trunc_scaled q' E' = \<lfloor>fval q' E'\<rfloor>" using q' by (rule trunc_scaled_floor)
    have t1: "c \<le> trunc_scaled q' E'"
      unfolding t using lo c(2) by (simp add: le_floor_iff)
    have "\<lfloor>fval q' E'\<rfloor> \<le> \<lfloor>(2::real) ^ 63 - 1024\<rfloor>"
      using up top by (intro floor_mono) simp
    also have "\<lfloor>(2::real) ^ 63 - 1024\<rfloor> = 2 ^ 63 - 1024"
      by (metis floor_of_int of_int_diff of_int_numeral of_int_power)
    finally have t2: "trunc_scaled q' E' \<le> 2 ^ 63 - 1024" unfolding t .
    have "int_of_float64 oor (Finite q' E') = trunc_scaled q' E'"
      using t1 t2 c(1) by (intro int_of_float64_in_range) simp_all
    with t1 t2 show ?thesis by (simp add: newBackoff_def prod r)
  qed
qed

section \<open>Lemmas on the loop body\<close>

lemma slept_append [simp]: "slept (xs @ ys) = slept xs @ slept ys"
  by (induction xs rule: slept.induct) simp_all

lemma react_state_independent_of_outcome:
  "fst (main_react f oor outcome siteDown s) = fst (main_react f oor outcome' siteDown s)"
  by (simp add: main_react_def Let_def)

lemma react_sleep_independent_of_outcome:
  "slept (snd (main_react f oor outcome siteDown s)) =
   slept (snd (main_react f oor outcome' siteDown s))"
  by (simp add: main_react_def Let_def)

lemma cycle_state:
  "fst (main_cycle f oor io s) =
     fst (main_react f oor (launched io)
            (fst (checkWebsiteDown (urlFlag f) (responses io) (retriesFlag f) (verboseFlag f))) s)"
  by (simp add: main_cycle_def Let_def)

lemma cycle_slept:
  "slept (snd (main_cycle f oor io s)) =
     slept (snd (main_react f oor (launched io)
            (fst (checkWebsiteDown (urlFlag f) (responses io) (retriesFlag f) (verboseFlag f))) s))"
  by (simp add: main_cycle_def Let_def)

lemma cycle_probes_once: "length (filter is_probe (snd (main_cycle f oor io s))) = 1"
  by (simp add: main_cycle_def main_react_def Let_def)

lemma loop_probes_each: "length (filter is_probe (snd (main_loop f oor ios s))) = length ios"
  by (induction ios arbitrary: s) (simp_all add: Let_def cycle_probes_once)

lemma react_all_append:
  "react_all f oor (xs @ ys) s =
     emit (snd (react_all f oor xs s)) (react_all f oor ys (fst (react_all f oor xs s)))"
  by (induction xs arbitrary: s) (simp_all add: Let_def emit_def)

lemma react_down_first:
  "consecutiveFailures s = 0 \<Longrightarrow>
   main_react f oor outcome True s =
     (\<lparr>consecutiveFailures = 1, currentBackoff = currentBackoff s\<rparr>,
      [LogDown (urlFlag f), Exec (executeELF outcome), Sleep (seconds (intervalFlag f))])"
  by (simp add: main_react_def Let_def)

lemma react_down_again:
  "1 \<le> consecutiveFailures s \<Longrightarrow>
   main_react f oor outcome True s =
     (let cb = min (newBackoff oor (currentBackoff s) (backoffFactorFlag f)) (maxBackoffFlag f)
      in (\<lparr>consecutiveFailures = consecutiveFailures s + 1, currentBackoff = cb\<rparr>,
          [LogDown (urlFlag f), Exec (executeELF outcome),
           LogBackoff (consecutiveFailures s + 1) cb, Sleep (seconds cb)]))"
  by (simp add: main_react_def Let_def min_def)

lemma react_down_sleeps_once:
  "length (slept (snd (main_react f oor outcome True s))) = 1"
  by (simp add: main_react_def Let_def)

lemma main_start_state:
  "main_start f stat = Inr s0 \<Longrightarrow>
   s0 = \<lparr>consecutiveFailures = 0, currentBackoff = initialBackoffFlag f\<rparr>"
  by (auto simp: main_start_def split: if_splits option.splits)

lemma cycle_state_down:
  "fst (checkWebsiteDown (urlFlag f) (responses io) (retriesFlag f) (verboseFlag f)) \<Longrightarrow>
   fst (main_cycle f oor io s) = fst (main_react f oor (launched io) True s)"
  by (simp add: cycle_state)

lemma cycle_slept_down:
  "fst (checkWebsiteDown (urlFlag f) (responses io) (retriesFlag f) (verboseFlag f)) \<Longrightarrow>
   slept (snd (main_cycle f oor io s)) = slept (snd (main_react f oor (launched io) True s))"
  by (simp add: cycle_slept)

lemma cycle_independent_of_outcome:
  "fst (main_cycle f oor (io\<lparr>launched := outcome\<rparr>) s) =
     fst (main_cycle f oor (io\<lparr>launched := outcome'\<rparr>) s)"
  "slept (snd (main_cycle f oor (io\<lparr>launched := outcome\<rparr>) s)) =
     slept (snd (main_cycle f oor (io\<lparr>launched := outcome'\<rparr>) s))"
  using react_state_independent_of_outcome [of f oor outcome _ s outcome']
        react_sleep_independent_of_outcome [of f oor outcome _ s outcome']
  by (simp_all add: cycle_state cycle_slept)

lemma seconds_fits: "fits_duration n \<Longrightarrow> seconds n = n * 1000000000"
  by (simp add: fits_duration_def seconds_def wrap64_def)

text \<open>One step of the state machine keeps the delay between the initial delay and the
  maximum, under the conditions of \<open>newBackoff_above\<close>.\<close>

lemma react_keeps_delay_in_range:
  assumes fac: "backoffFactorFlag f = Finite m e" "1 \<le> fval m e"
    and cfg: "0 \<le> initialBackoffFlag f" "initialBackoffFlag f \<le> maxBackoffFlag f"
      "of_int (initialBackoffFlag f) = fval a b" "binary64 a b"
      "of_int (maxBackoffFlag f) * fval m e \<le> 2 ^ 63 - 2048"
    and inv: "initialBackoffFlag f \<le> currentBackoff s" "currentBackoff s \<le> maxBackoffFlag f"
  shows "initialBackoffFlag f \<le> currentBackoff (fst (main_react f oor outcome down s)) \<and>
         currentBackoff (fst (main_react f oor outcome down s)) \<le> maxBackoffFlag f"
proof (cases "down \<and> 1 < consecutiveFailures s + 1")
  case False
  with cfg inv show ?thesis
    by (auto simp: main_react_def Let_def)
next
  case True
  have "0 \<le> fval m e" using fac(2) by simp
  then have "of_int (currentBackoff s) * fval m e \<le> of_int (maxBackoffFlag f) * fval m e"
    using inv(2) by (intro mult_right_mono) simp_all
  with cfg(5) have p: "of_int (currentBackoff s) * fval m e \<le> 2 ^ 63 - 2048" by simp
  from newBackoff_above [OF cfg(1,3,4) inv(1) fac(2) p, of oor]
  have "initialBackoffFlag f \<le> newBackoff oor (currentBackoff s) (backoffFactorFlag f)"
    by (simp add: fac(1))
  with True cfg(2) inv show ?thesis
    by (auto simp: main_react_def Let_def)
qed

lemma react_all_keeps_delay_in_range:
  assumes "backoffFactorFlag f = Finite m e" "1 \<le> fval m e"
    and "0 \<le> initialBackoffFlag f" "initialBackoffFlag f \<le> maxBackoffFlag f"
      "of_int (initialBackoffFlag f) = fval a b" "binary64 a b"
      "of_int (maxBackoffFlag f) * fval m e \<le> 2 ^ 63 - 2048"
    and "initialBackoffFlag f \<le> currentBackoff s" "currentBackoff s \<le> maxBackoffFlag f"
  shows "initialBackoffFlag f \<le> currentBackoff (fst (react_all f oor xs s)) \<and>
         currentBackoff (fst (react_all f oor xs s)) \<le> maxBackoffFlag f"
  using assms(8,9)
proof (induction xs arbitrary: s)
  case Nil
  then show ?case by simp
next
  case (Cons x xs)
  from react_keeps_delay_in_range [OF assms(1-7) Cons.prems, of oor "snd x" "fst x"]
  show ?case by (simp add: Let_def Cons.IH)
qed

lemma main_loop_keeps_delay_in_range:
  assumes "backoffFactorFlag f = Finite m e" "1 \<le> fval m e"
    and "0 \<le> initialBackoffFlag f" "initialBackoffFlag f \<le> maxBackoffFlag f"
      "of_int (initialBackoffFlag f) = fval a b" "binary64 a b"
      "of_int (maxBackoffFlag f) * fval m e \<le> 2 ^ 63 - 2048"
    and "initialBackoffFlag f \<le> currentBackoff s" "currentBackoff s \<le> maxBackoffFlag f"
  shows "initialBackoffFlag f \<le> currentBackoff (fst (main_loop f oor ios s)) \<and>
         currentBackoff (fst (main_loop f oor ios s)) \<le> maxBackoffFlag f"
  using assms(8,9)
proof (induction ios arbitrary: s)
  case Nil
  then show ?case by simp
next
  case (Cons io ios)
  from react_keeps_delay_in_range [OF assms(1-7) Cons.prems]
  show ?case by (simp add: Let_def cycle_state Cons.IH)
qed

section \<open>The prober\<close>

text \<open>
  C5. With a retry budget of at least one, the prober reports UP exactly when one of the
  first \<open>retries\<close> attempts completes without a transport error and with a status in
  \<open>[200, 400)\<close>; it then returns at the first such attempt, having made no request after
  it. It reports DOWN exactly when all \<open>retries\<close> attempts fail, and has then made all of
  them.
\<close>

theorem prober_up_iff_some_attempt_ok:
  assumes "1 \<le> retries"
  shows "(\<not> fst (checkWebsiteDown url client retries verbose) \<longleftrightarrow>
            (\<exists>j. int j < retries \<and> attempt_ok (client j))) \<and>
         (\<not> fst (checkWebsiteDown url client retries verbose) \<longrightarrow>
            (\<exists>j. int j < retries \<and> attempt_ok (client j) \<and>
                 (\<forall>k. k < j \<longrightarrow> \<not> attempt_ok (client k)) \<and>
                 attempts_made (snd (checkWebsiteDown url client retries verbose)) = Suc j)) \<and>
         (fst (checkWebsiteDown url client retries verbose) \<longleftrightarrow>
            (\<forall>j. int j < retries \<longrightarrow> \<not> attempt_ok (client j))) \<and>
         (fst (checkWebsiteDown url client retries verbose) \<longrightarrow>
            attempts_made (snd (checkWebsiteDown url client retries verbose)) = nat retries)"
proof -
  let ?r = "checkWebsiteDown_loop url client retries verbose 0"
  have down: "fst ?r \<longleftrightarrow> (\<forall>j. int j < retries \<longrightarrow> \<not> attempt_ok (client j))"
    using loop_down_iff [of 0 url client retries verbose] by simp
  have all: "fst ?r \<Longrightarrow> attempts_made (snd ?r) = nat retries"
    using loop_down_attempts [of 0 url client retries verbose] by simp
  have first: "\<not> fst ?r \<Longrightarrow>
      \<exists>j. int j < retries \<and> attempt_ok (client j) \<and>
          (\<forall>k. k < j \<longrightarrow> \<not> attempt_ok (client k)) \<and> attempts_made (snd ?r) = Suc j"
    using loop_up_attempts [of 0 url client retries verbose] by simp
  from down all first show ?thesis
    unfolding checkWebsiteDown_def by blast
qed

theorem prober_up_iff_some_attempt_ok_witness:
  "(1::int) \<le> 3 \<and>
   checkWebsiteDown ''http://example.org'' scenario_A 3 True =
     (False,
      [HttpGet ''http://example.org'', LogRequestFailed 1 3 ''connection refused'',
       RetrySleep 2000000000,
       HttpGet ''http://example.org'', LogBadStatus 2 3 503, RetrySleep 2000000000,
       HttpGet ''http://example.org'']) \<and>
   (\<exists>j. int j < 3 \<and> attempt_ok (scenario_A j) \<and>
        (\<forall>k. k < j \<longrightarrow> \<not> attempt_ok (scenario_A k)) \<and>
        attempts_made (snd (checkWebsiteDown ''http://example.org'' scenario_A 3 True)) = Suc j) \<and>
   fst (checkWebsiteDown ''http://example.org'' always_timeout 2 True) \<and>
   attempts_made (snd (checkWebsiteDown ''http://example.org'' always_timeout 2 True)) = 2"
proof -
  have three: "(1::int) \<le> 3" and two: "(1::int) \<le> 2"
    by simp_all
  have run: "checkWebsiteDown ''http://example.org'' scenario_A 3 True =
     (False,
      [HttpGet ''http://example.org'', LogRequestFailed 1 3 ''connection refused'',
       RetrySleep 2000000000,
       HttpGet ''http://example.org'', LogBadStatus 2 3 503, RetrySleep 2000000000,
       HttpGet ''http://example.org''])"
    by code_simp
  have down: "fst (checkWebsiteDown ''http://example.org'' always_timeout 2 True)"
    by code_simp
  from prober_up_iff_some_attempt_ok [OF three, of "''http://example.org''" scenario_A True]
       prober_up_iff_some_attempt_ok [OF two, of "''http://example.org''" always_timeout True]
       three run down
  show ?thesis by simp
qed

text \<open>
  C9. The prober of \<^verbatim>\<open>main.go\<close> and the prober of the variant with backoff return the
  same classification (and do the same things) for every url, retry budget, verbosity and
  sequence of per-attempt results.
\<close>

theorem probers_equal:
  "checkWebsiteDown_main_go url client retries verbose =
   checkWebsiteDown url client retries verbose"
  by (simp add: checkWebsiteDown_main_go_def checkWebsiteDown_def loops_agree)

text \<open>
  C10. The classification does not depend on the verbose flag: two runs that differ in
  verbosity only return the same boolean, and differ in nothing but their log lines.
\<close>

theorem classification_independent_of_verbose:
  "fst (checkWebsiteDown url client retries v1) = fst (checkWebsiteDown url client retries v2) \<and>
   filter (\<lambda>ev. \<not> is_probe_log ev) (snd (checkWebsiteDown url client retries v1)) =
   filter (\<lambda>ev. \<not> is_probe_log ev) (snd (checkWebsiteDown url client retries v2))"
  unfolding checkWebsiteDown_def
  using loop_result_verbose [of url client retries v1 0 v2]
        loop_effects_verbose [of url client retries v1 0 v2]
  by simp

text \<open>
  C6. The start of \<^verbatim>\<open>main\<close> checks the url and the executable only. With
  \<^verbatim>\<open>-retries 0\<close> the monitor starts, and the prober then returns DOWN through the
  statement after its loop without a single request, here for a site that would have
  answered 200: the executable is launched on no evidence.
\<close>

theorem retries_zero_down_without_request:
  "main_start (scenario_C\<lparr>retriesFlag := 0\<rparr>) (\<lambda>path. Some 493) =
     Inr \<lparr>consecutiveFailures = 0, currentBackoff = 60\<rparr> \<and>
   checkWebsiteDown ''http://example.org'' (\<lambda>i. Response 200) 0 False = (True, []) \<and>
   main_cycle (scenario_C\<lparr>retriesFlag := 0\<rparr>) oor_amd64 site_up
       \<lparr>consecutiveFailures = 0, currentBackoff = 60\<rparr> =
     (\<lparr>consecutiveFailures = 1, currentBackoff = 60\<rparr>,
      [Probe [], LogDown ''http://example.org'',
       Exec [Println ''ELF binary output:'', Println ''restarted''],
       Sleep 60000000000])"
  by code_simp

section \<open>The remediation action\<close>

text \<open>
  C7, as the code has it. A non-zero exit status makes \<^verbatim>\<open>CombinedOutput\<close> return an
  error, so \<^verbatim>\<open>executeELF\<close> logs a failure and prints nothing of the captured output;
  the output is printed for status zero. The backoff state and the sleep of the cycle
  are the same for every exit status.
\<close>

theorem nonzero_exit_logged_output_dropped:
  assumes "status \<noteq> 0"
  shows "executeELF (Exited status out) = [LogExecFailed (ExitError status)] \<and>
         executeELF (Exited 0 out) = [Println ''ELF binary output:'', Println out] \<and>
         fst (main_cycle f oor (io\<lparr>launched := Exited status out\<rparr>) s) =
           fst (main_cycle f oor (io\<lparr>launched := Exited 0 out\<rparr>) s) \<and>
         slept (snd (main_cycle f oor (io\<lparr>launched := Exited status out\<rparr>) s)) =
           slept (snd (main_cycle f oor (io\<lparr>launched := Exited 0 out\<rparr>) s))"
  using assms cycle_independent_of_outcome
          [where f = f and oor = oor and io = io and s = s and outcome = "Exited status out"
             and outcome' = "Exited 0 out"]
  by (simp add: executeELF_def)

theorem nonzero_exit_logged_output_dropped_witness:
  "(1::int) \<noteq> 0 \<and>
   executeELF (Exited 1 ''boom'') = [LogExecFailed (ExitError 1)] \<and>
   executeELF (Exited 0 ''boom'') = [Println ''ELF binary output:'', Println ''boom''] \<and>
   fst (main_cycle scenario_C oor_amd64 (site_down\<lparr>launched := Exited 1 ''boom''\<rparr>)
          \<lparr>consecutiveFailures = 1, currentBackoff = 60\<rparr>) =
     \<lparr>consecutiveFailures = 2, currentBackoff = 120\<rparr> \<and>
   fst (main_cycle scenario_C oor_amd64 (site_down\<lparr>launched := Exited 0 ''boom''\<rparr>)
          \<lparr>consecutiveFailures = 1, currentBackoff = 60\<rparr>) =
     \<lparr>consecutiveFailures = 2, currentBackoff = 120\<rparr> \<and>
   slept (snd (main_cycle scenario_C oor_amd64 (site_down\<lparr>launched := Exited 1 ''boom''\<rparr>)
          \<lparr>consecutiveFailures = 1, currentBackoff = 60\<rparr>)) =
     slept (snd (main_cycle scenario_C oor_amd64 (site_down\<lparr>launched := Exited 0 ''boom''\<rparr>)
          \<lparr>consecutiveFailures = 1, currentBackoff = 60\<rparr>))"
proof -
  have nz: "(1::int) \<noteq> 0" by simp
  have run: "fst (main_cycle scenario_C oor_amd64 (site_down\<lparr>launched := Exited 0 ''boom''\<rparr>)
          \<lparr>consecutiveFailures = 1, currentBackoff = 60\<rparr>) =
     \<lparr>consecutiveFailures = 2, currentBackoff = 120\<rparr>"
    by code_simp
  from nonzero_exit_logged_output_dropped [OF nz, of "''boom''" scenario_C oor_amd64 site_down
         "\<lparr>consecutiveFailures = 1, currentBackoff = 60\<rparr>"] nz run
  show ?thesis by simp
qed

text \<open>
  The claim C7 as the spec states it fails: an executable that starts, writes \<open>boom\<close> and
  exits with status 1 gets a failure line in the log, and its output is not printed.
\<close>

theorem nonzero_exit_counterexample:
  "executeELF (Exited 1 ''boom'') = [LogExecFailed (ExitError 1)] \<and>
   Println ''boom'' \<notin> set (executeELF (Exited 1 ''boom''))"
  by (simp add: executeELF_def)

text \<open>
  C8. A remediation that fails to start or to be waited for leaves a log line and nothing
  else: the cycle ends in the same backoff state and with the same sleep as after a
  successful run, and the loop goes on, one probe for every iteration whatever happened
  to the executable.
\<close>

theorem remediation_failure_only_logged:
  "executeELF (StartError msg) = [LogExecFailed (ErrStart msg)] \<and>
   executeELF (WaitError out msg) = [LogExecFailed (ErrWait msg)] \<and>
   fst (main_cycle f oor (io\<lparr>launched := outcome\<rparr>) s) =
     fst (main_cycle f oor (io\<lparr>launched := Exited 0 out\<rparr>) s) \<and>
   slept (snd (main_cycle f oor (io\<lparr>launched := outcome\<rparr>) s)) =
     slept (snd (main_cycle f oor (io\<lparr>launched := Exited 0 out\<rparr>) s)) \<and>
   length (filter is_probe (snd (main_loop f oor ios s))) = length ios"
  using cycle_independent_of_outcome
          [where f = f and oor = oor and io = io and s = s and outcome = outcome
             and outcome' = "Exited 0 out"]
  by (simp add: executeELF_def loop_probes_each)

section \<open>The backoff state machine\<close>

text \<open>
  C2, as the code has it. Whatever the backoff state, a cycle whose probe reports UP ends
  with the failure counter at 0 and the delay at the configured initial delay; so does
  the last cycle of any sequence of probe outcomes that ends with UP. The sleep that
  follows is called with \<^verbatim>\<open>time.Duration(interval) * time.Second\<close>: the base check
  interval, \<open>interval\<close> seconds, whenever its count of nanoseconds fits an int64, and the
  wrap-around of that count otherwise.
\<close>

theorem up_resets_backoff:
  assumes "\<not> fst (checkWebsiteDown (urlFlag f) (responses io) (retriesFlag f) (verboseFlag f))"
  shows "fst (main_cycle f oor io s) =
           \<lparr>consecutiveFailures = 0, currentBackoff = initialBackoffFlag f\<rparr> \<and>
         slept (snd (main_cycle f oor io s)) = [seconds (intervalFlag f)] \<and>
         (fits_duration (intervalFlag f) \<longrightarrow>
            slept (snd (main_cycle f oor io s)) = [intervalFlag f * 1000000000]) \<and>
         fst (react_all f oor (xs @ [(False, outcome)]) s) =
           \<lparr>consecutiveFailures = 0, currentBackoff = initialBackoffFlag f\<rparr>"
  using assms
  by (simp add: cycle_state cycle_slept main_react_def react_all_append seconds_fits)

theorem up_resets_backoff_witness:
  "\<not> fst (checkWebsiteDown (urlFlag scenario_C) (responses site_up) (retriesFlag scenario_C)
           (verboseFlag scenario_C)) \<and>
   fits_duration (intervalFlag scenario_C) \<and>
   fst (main_loop scenario_C oor_amd64 [site_down, site_down, site_down, site_down]
          \<lparr>consecutiveFailures = 0, currentBackoff = 60\<rparr>) =
     \<lparr>consecutiveFailures = 4, currentBackoff = 300\<rparr> \<and>
   fst (main_cycle scenario_C oor_amd64 site_up \<lparr>consecutiveFailures = 4, currentBackoff = 300\<rparr>) =
     \<lparr>consecutiveFailures = 0, currentBackoff = 60\<rparr> \<and>
   slept (snd (main_cycle scenario_C oor_amd64 site_up
                 \<lparr>consecutiveFailures = 4, currentBackoff = 300\<rparr>)) = [60000000000]"
proof -
  have up: "\<not> fst (checkWebsiteDown (urlFlag scenario_C) (responses site_up)
                     (retriesFlag scenario_C) (verboseFlag scenario_C))"
    by code_simp
  have fits: "fits_duration (intervalFlag scenario_C)"
    by (simp add: fits_duration_def scenario_C_def)
  have before: "fst (main_loop scenario_C oor_amd64 [site_down, site_down, site_down, site_down]
          \<lparr>consecutiveFailures = 0, currentBackoff = 60\<rparr>) =
     \<lparr>consecutiveFailures = 4, currentBackoff = 300\<rparr>"
    by code_simp
  have flags: "intervalFlag scenario_C = 60" "initialBackoffFlag scenario_C = 60"
    by (simp_all add: scenario_C_def)
  from up_resets_backoff [OF up, of oor_amd64
         "\<lparr>consecutiveFailures = 4, currentBackoff = 300\<rparr>" "[]" "Exited 0 []"] fits
  have "fst (main_cycle scenario_C oor_amd64 site_up
               \<lparr>consecutiveFailures = 4, currentBackoff = 300\<rparr>) =
          \<lparr>consecutiveFailures = 0, currentBackoff = initialBackoffFlag scenario_C\<rparr>"
    and "slept (snd (main_cycle scenario_C oor_amd64 site_up
               \<lparr>consecutiveFailures = 4, currentBackoff = 300\<rparr>)) =
          [intervalFlag scenario_C * 1000000000]"
    by blast+
  with up fits before show ?thesis by (simp add: flags)
qed

text \<open>
  The claim C2 as the spec states it fails in its last part. With
  \<^verbatim>\<open>-interval 18446744074\<close> the count of nanoseconds passes \<open>2^64\<close>, and the first cycle
  of a site that is up sleeps 290448384 nanoseconds, not 18446744074 seconds.
\<close>

theorem up_resets_backoff_counterexample:
  "main_start long_interval (\<lambda>path. Some 493) =
     Inr \<lparr>consecutiveFailures = 0, currentBackoff = 60\<rparr> \<and>
   \<not> fst (checkWebsiteDown (urlFlag long_interval) (responses site_up)
           (retriesFlag long_interval) (verboseFlag long_interval)) \<and>
   slept (snd (main_cycle long_interval oor_amd64 site_up
                 \<lparr>consecutiveFailures = 0, currentBackoff = 60\<rparr>)) = [290448384] \<and>
   slept (snd (main_cycle long_interval oor_amd64 site_up
                 \<lparr>consecutiveFailures = 0, currentBackoff = 60\<rparr>)) \<noteq>
     [intervalFlag long_interval * 1000000000]"
proof -
  have s: "main_start long_interval (\<lambda>path. Some 493) =
     Inr \<lparr>consecutiveFailures = 0, currentBackoff = 60\<rparr>"
    by code_simp
  have up: "\<not> fst (checkWebsiteDown (urlFlag long_interval) (responses site_up)
           (retriesFlag long_interval) (verboseFlag long_interval))"
    by code_simp
  have a: "slept (snd (main_cycle long_interval oor_amd64 site_up
                 \<lparr>consecutiveFailures = 0, currentBackoff = 60\<rparr>)) = [290448384]"
    by code_simp
  have i: "intervalFlag long_interval = 18446744074"
    by (simp add: long_interval_def)
  show ?thesis unfolding s a i using up by simp
qed

text \<open>
  C3, as the code has it. A cycle that observes DOWN sleeps exactly once between cycles
  (the pauses between the attempts of the prober are inside the probe). When the counter
  goes from 0 to 1 the delay is left alone and the sleep is called with
  \<^verbatim>\<open>time.Duration(interval) * time.Second\<close>, the base check interval whenever its count
  of nanoseconds fits an int64. When the counter was at least 1 the sleep is called with
  \<^verbatim>\<open>time.Duration(currentBackoff) * time.Second\<close> for the updated delay, which is that
  delay under the same condition, and there is no sleep for the base interval. With
  initial 60, factor 2.0, maximum 300 and base interval 60, four DOWN cycles in a row
  sleep 60, 120, 240 and 300 seconds.
\<close>

theorem down_cycle_sleeps_once:
  assumes "fst (checkWebsiteDown (urlFlag f) (responses io) (retriesFlag f) (verboseFlag f))"
  shows "length (slept (snd (main_cycle f oor io s))) = 1 \<and>
         (consecutiveFailures s = 0 \<longrightarrow>
            consecutiveFailures (fst (main_cycle f oor io s)) = 1 \<and>
            currentBackoff (fst (main_cycle f oor io s)) = currentBackoff s \<and>
            slept (snd (main_cycle f oor io s)) = [seconds (intervalFlag f)] \<and>
            (fits_duration (intervalFlag f) \<longrightarrow>
               slept (snd (main_cycle f oor io s)) = [intervalFlag f * 1000000000])) \<and>
         (1 \<le> consecutiveFailures s \<longrightarrow>
            consecutiveFailures (fst (main_cycle f oor io s)) = consecutiveFailures s + 1 \<and>
            currentBackoff (fst (main_cycle f oor io s)) =
              min (newBackoff oor (currentBackoff s) (backoffFactorFlag f)) (maxBackoffFlag f) \<and>
            slept (snd (main_cycle f oor io s)) =
              [seconds (currentBackoff (fst (main_cycle f oor io s)))] \<and>
            (fits_duration (currentBackoff (fst (main_cycle f oor io s))) \<longrightarrow>
               slept (snd (main_cycle f oor io s)) =
                 [currentBackoff (fst (main_cycle f oor io s)) * 1000000000])) \<and>
         slept (snd (main_loop scenario_C oor [site_down, site_down, site_down, site_down]
                       \<lparr>consecutiveFailures = 0, currentBackoff = 60\<rparr>)) =
           [60 * 1000000000, 120 * 1000000000, 240 * 1000000000, 300 * 1000000000]"
proof -
  note to_react = cycle_state_down [OF assms] cycle_slept_down [OF assms]
  have once: "length (slept (snd (main_cycle f oor io s))) = 1"
    by (simp add: to_react react_down_sleeps_once)
  have first: "consecutiveFailures s = 0 \<longrightarrow>
      consecutiveFailures (fst (main_cycle f oor io s)) = 1 \<and>
      currentBackoff (fst (main_cycle f oor io s)) = currentBackoff s \<and>
      slept (snd (main_cycle f oor io s)) = [seconds (intervalFlag f)] \<and>
      (fits_duration (intervalFlag f) \<longrightarrow>
         slept (snd (main_cycle f oor io s)) = [intervalFlag f * 1000000000])"
    by (simp add: to_react react_down_first seconds_fits)
  have again: "1 \<le> consecutiveFailures s \<longrightarrow>
      consecutiveFailures (fst (main_cycle f oor io s)) = consecutiveFailures s + 1 \<and>
      currentBackoff (fst (main_cycle f oor io s)) =
        min (newBackoff oor (currentBackoff s) (backoffFactorFlag f)) (maxBackoffFlag f) \<and>
      slept (snd (main_cycle f oor io s)) =
        [seconds (currentBackoff (fst (main_cycle f oor io s)))] \<and>
      (fits_duration (currentBackoff (fst (main_cycle f oor io s))) \<longrightarrow>
         slept (snd (main_cycle f oor io s)) =
           [currentBackoff (fst (main_cycle f oor io s)) * 1000000000])"
    by (simp add: to_react react_down_again Let_def seconds_fits)
  have run: "slept (snd (main_loop scenario_C oor [site_down, site_down, site_down, site_down]
                 \<lparr>consecutiveFailures = 0, currentBackoff = 60\<rparr>)) =
     [60 * 1000000000, 120 * 1000000000, 240 * 1000000000, 300 * 1000000000]"
    by code_simp
  from once first again run show ?thesis
    by blast
qed

theorem down_cycle_sleeps_once_witness:
  "fst (checkWebsiteDown (urlFlag scenario_C) (responses site_down) (retriesFlag scenario_C)
         (verboseFlag scenario_C)) \<and>
   consecutiveFailures \<lparr>consecutiveFailures = 0, currentBackoff = 60\<rparr> = 0 \<and>
   fits_duration (intervalFlag scenario_C) \<and>
   main_cycle scenario_C oor_amd64 site_down \<lparr>consecutiveFailures = 0, currentBackoff = 60\<rparr> =
     (\<lparr>consecutiveFailures = 1, currentBackoff = 60\<rparr>,
      [Probe [HttpGet ''http://example.org'', RetrySleep 2000000000,
              HttpGet ''http://example.org'', RetrySleep 2000000000,
              HttpGet ''http://example.org''],
       LogDown ''http://example.org'',
       Exec [Println ''ELF binary output:'', Println ''restarted''],
       Sleep 60000000000]) \<and>
   slept (snd (main_cycle scenario_C oor_amd64 site_down
                 \<lparr>consecutiveFailures = 0, currentBackoff = 60\<rparr>)) = [60000000000] \<and>
   1 \<le> consecutiveFailures \<lparr>consecutiveFailures = 1, currentBackoff = 60\<rparr> \<and>
   currentBackoff (fst (main_cycle scenario_C oor_amd64 site_down
                 \<lparr>consecutiveFailures = 1, currentBackoff = 60\<rparr>)) = 120 \<and>
   fits_duration 120 \<and>
   slept (snd (main_cycle scenario_C oor_amd64 site_down
                 \<lparr>consecutiveFailures = 1, currentBackoff = 60\<rparr>)) = [120000000000] \<and>
   slept (snd (main_loop scenario_C oor_amd64 [site_down, site_down, site_down, site_down]
                 \<lparr>consecutiveFailures = 0, currentBackoff = 60\<rparr>)) =
     [60000000000, 120000000000, 240000000000, 300000000000]"
proof -
  let ?s0 = "\<lparr>consecutiveFailures = 0, currentBackoff = 60\<rparr>"
  let ?s1 = "\<lparr>consecutiveFailures = 1, currentBackoff = 60\<rparr>"
  have down: "fst (checkWebsiteDown (urlFlag scenario_C) (responses site_down)
                    (retriesFlag scenario_C) (verboseFlag scenario_C))"
    by code_simp
  have cycle: "main_cycle scenario_C oor_amd64 site_down ?s0 =
     (\<lparr>consecutiveFailures = 1, currentBackoff = 60\<rparr>,
      [Probe [HttpGet ''http://example.org'', RetrySleep 2000000000,
              HttpGet ''http://example.org'', RetrySleep 2000000000,
              HttpGet ''http://example.org''],
       LogDown ''http://example.org'',
       Exec [Println ''ELF binary output:'', Println ''restarted''],
       Sleep 60000000000])"
    by code_simp
  have fits: "fits_duration (intervalFlag scenario_C)" "fits_duration 120"
    by (simp_all add: fits_duration_def scenario_C_def)
  have scaled: "min (newBackoff oor_amd64 60 (backoffFactorFlag scenario_C))
                  (maxBackoffFlag scenario_C) = 120"
    by code_simp
  have c0: "consecutiveFailures ?s0 = 0" and c1: "1 \<le> consecutiveFailures ?s1"
    by simp_all
  note first = down_cycle_sleeps_once [OF down, of oor_amd64 ?s0]
  note again = down_cycle_sleeps_once [OF down, of oor_amd64 ?s1]
  from first c0 fits(1)
  have sleep0: "slept (snd (main_cycle scenario_C oor_amd64 site_down ?s0)) =
      [intervalFlag scenario_C * 1000000000]"
    by blast
  from again c1
  have delay1: "currentBackoff (fst (main_cycle scenario_C oor_amd64 site_down ?s1)) =
      min (newBackoff oor_amd64 (currentBackoff ?s1) (backoffFactorFlag scenario_C))
        (maxBackoffFlag scenario_C)"
    by blast
  then have delay1': "currentBackoff (fst (main_cycle scenario_C oor_amd64 site_down ?s1)) = 120"
    using scaled by simp
  from again c1 fits(2) delay1'
  have sleep1: "slept (snd (main_cycle scenario_C oor_amd64 site_down ?s1)) =
      [currentBackoff (fst (main_cycle scenario_C oor_amd64 site_down ?s1)) * 1000000000]"
    by metis
  from first
  have run: "slept (snd (main_loop scenario_C oor_amd64 [site_down, site_down, site_down, site_down]
                 ?s0)) =
     [60 * 1000000000, 120 * 1000000000, 240 * 1000000000, 300 * 1000000000]"
    by blast
  have i: "intervalFlag scenario_C = 60" by (simp add: scenario_C_def)
  from down fits cycle sleep0 delay1' sleep1 run show ?thesis
    by (simp add: i)
qed

text \<open>
  The claim C3 as the spec states it fails where the count of nanoseconds leaves the
  int64. With \<^verbatim>\<open>-interval 18446744074\<close> the first DOWN cycle sleeps 290448384
  nanoseconds. With \<^verbatim>\<open>-initial-backoff 9223372037 -max-backoff 18446744074\<close> the second
  DOWN cycle takes the delay to 18446744074 seconds and sleeps 290448384 nanoseconds.
\<close>

theorem down_cycle_sleeps_once_counterexample:
  "fst (checkWebsiteDown (urlFlag long_interval) (responses site_down)
         (retriesFlag long_interval) (verboseFlag long_interval)) \<and>
   slept (snd (main_cycle long_interval oor_amd64 site_down
                 \<lparr>consecutiveFailures = 0, currentBackoff = 60\<rparr>)) = [290448384] \<and>
   slept (snd (main_cycle long_interval oor_amd64 site_down
                 \<lparr>consecutiveFailures = 0, currentBackoff = 60\<rparr>)) \<noteq>
     [intervalFlag long_interval * 1000000000] \<and>
   main_cycle long_backoff oor_amd64 site_down
       (fst (main_cycle long_backoff oor_amd64 site_down
               \<lparr>consecutiveFailures = 0, currentBackoff = 9223372037\<rparr>)) =
     (\<lparr>consecutiveFailures = 2, currentBackoff = 18446744074\<rparr>,
      [Probe [HttpGet ''http://example.org'', RetrySleep 2000000000,
              HttpGet ''http://example.org'', RetrySleep 2000000000,
              HttpGet ''http://example.org''],
       LogDown ''http://example.org'',
       Exec [Println ''ELF binary output:'', Println ''restarted''],
       LogBackoff 2 18446744074, Sleep 290448384]) \<and>
   (290448384 :: int) \<noteq> 18446744074 * 1000000000"
proof -
  have down: "fst (checkWebsiteDown (urlFlag long_interval) (responses site_down)
         (retriesFlag long_interval) (verboseFlag long_interval))"
    by code_simp
  have a: "slept (snd (main_cycle long_interval oor_amd64 site_down
                 \<lparr>consecutiveFailures = 0, currentBackoff = 60\<rparr>)) = [290448384]"
    by code_simp
  have b: "main_cycle long_backoff oor_amd64 site_down
       (fst (main_cycle long_backoff oor_amd64 site_down
               \<lparr>consecutiveFailures = 0, currentBackoff = 9223372037\<rparr>)) =
     (\<lparr>consecutiveFailures = 2, currentBackoff = 18446744074\<rparr>,
      [Probe [HttpGet ''http://example.org'', RetrySleep 2000000000,
              HttpGet ''http://example.org'', RetrySleep 2000000000,
              HttpGet ''http://example.org''],
       LogDown ''http://example.org'',
       Exec [Println ''ELF binary output:'', Println ''restarted''],
       LogBackoff 2 18446744074, Sleep 290448384])"
    by code_simp
  have i: "intervalFlag long_interval = 18446744074"
    by (simp add: long_interval_def)
  show ?thesis unfolding a b i using down by simp
qed

text \<open>
  C1, as the code has it. On a DOWN cycle entered with the counter at 1 or more, the new
  delay is the smaller of the maximum and \<^verbatim>\<open>int(float64(delay) * factor)\<close>: the float64
  product, its fraction cut off. For a delay in the range of \<^verbatim>\<open>int\<close> and a finite factor,
  this is the truncation of \<open>delay * factor\<close> whenever that product is a number that
  binary64 holds and its truncation fits \<^verbatim>\<open>int\<close>. The new delay is at least the old one
  when the factor is finite and at least 1, the old delay lies between 0 and the
  maximum and converts to float64 as it is, and \<open>delay * factor\<close> is at most
  \<open>2^63 - 1024\<close>, the largest float64 below \<open>2^63\<close>.
\<close>

theorem backoff_step:
  assumes "fst (checkWebsiteDown (urlFlag f) (responses io) (retriesFlag f) (verboseFlag f))"
    and "1 \<le> consecutiveFailures s"
  shows "currentBackoff (fst (main_cycle f oor io s)) =
           min (newBackoff oor (currentBackoff s) (backoffFactorFlag f)) (maxBackoffFlag f) \<and>
         (backoffFactorFlag f = Finite m e \<and>
          - (2 ^ 63) \<le> currentBackoff s \<and> currentBackoff s < 2 ^ 63 \<and>
          of_int (currentBackoff s) * fval m e = fval p r \<and> binary64 p r \<and>
          - (2 ^ 63) \<le> trunc_toward_zero (of_int (currentBackoff s) * fval m e) \<and>
          trunc_toward_zero (of_int (currentBackoff s) * fval m e) < 2 ^ 63 \<longrightarrow>
            currentBackoff (fst (main_cycle f oor io s)) =
              min (trunc_toward_zero (of_int (currentBackoff s) * fval m e)) (maxBackoffFlag f)) \<and>
         (backoffFactorFlag f = Finite m e \<and> 1 \<le> fval m e \<and>
          0 \<le> currentBackoff s \<and> currentBackoff s \<le> maxBackoffFlag f \<and>
          of_int (currentBackoff s) = fval a b \<and> binary64 a b \<and>
          of_int (currentBackoff s) * fval m e \<le> 2 ^ 63 - 1024 \<longrightarrow>
            currentBackoff s \<le> currentBackoff (fst (main_cycle f oor io s)))"
proof -
  have step: "currentBackoff (fst (main_cycle f oor io s)) =
           min (newBackoff oor (currentBackoff s) (backoffFactorFlag f)) (maxBackoffFlag f)"
    using assms(2) by (simp add: cycle_state_down [OF assms(1)] react_down_again Let_def)
  have exact: "currentBackoff (fst (main_cycle f oor io s)) =
              min (trunc_toward_zero (of_int (currentBackoff s) * fval m e)) (maxBackoffFlag f)"
    if "backoffFactorFlag f = Finite m e"
       "- (2 ^ 63) \<le> currentBackoff s" "currentBackoff s < 2 ^ 63"
       "of_int (currentBackoff s) * fval m e = fval p r" "binary64 p r"
       "- (2 ^ 63) \<le> trunc_toward_zero (of_int (currentBackoff s) * fval m e)"
       "trunc_toward_zero (of_int (currentBackoff s) * fval m e) < 2 ^ 63"
  proof -
    have "\<bar>currentBackoff s\<bar> \<le> 2 ^ 63" using that(2,3) by simp
    from newBackoff_exact [OF this that(4-7), of oor] that(1) step show ?thesis by simp
  qed
  have grows: "currentBackoff s \<le> currentBackoff (fst (main_cycle f oor io s))"
    if "backoffFactorFlag f = Finite m e" "1 \<le> fval m e" "0 \<le> currentBackoff s"
       "currentBackoff s \<le> maxBackoffFlag f" "of_int (currentBackoff s) = fval a b"
       "binary64 a b" "of_int (currentBackoff s) * fval m e \<le> 2 ^ 63 - 1024"
    using newBackoff_grows [OF that(3,5,6,2,7), of oor] that(1,4) step by simp
  from step exact grows show ?thesis by blast
qed

theorem backoff_step_witness:
  "fst (checkWebsiteDown (urlFlag factor_1_5) (responses site_down) (retriesFlag factor_1_5)
         (verboseFlag factor_1_5)) \<and>
   fst (main_loop factor_1_5 oor_amd64 [site_down, site_down, site_down]
          \<lparr>consecutiveFailures = 0, currentBackoff = 60\<rparr>) =
     \<lparr>consecutiveFailures = 3, currentBackoff = 135\<rparr> \<and>
   1 \<le> consecutiveFailures \<lparr>consecutiveFailures = 3, currentBackoff = 135\<rparr> \<and>
   135 * fval 3 (- 1) = fval 405 (- 1) \<and> binary64 405 (- 1) \<and>
   trunc_toward_zero (135 * fval 3 (- 1)) = 202 \<and>
   currentBackoff (fst (main_cycle factor_1_5 oor_amd64 site_down
        \<lparr>consecutiveFailures = 3, currentBackoff = 135\<rparr>)) = 202 \<and>
   135 \<le> currentBackoff (fst (main_cycle factor_1_5 oor_amd64 site_down
        \<lparr>consecutiveFailures = 3, currentBackoff = 135\<rparr>)) \<and>
   fst (checkWebsiteDown (urlFlag factor_1_1) (responses site_down) (retriesFlag factor_1_1)
         (verboseFlag factor_1_1)) \<and>
   fst (main_loop factor_1_1 oor_amd64 [site_down]
          \<lparr>consecutiveFailures = 0, currentBackoff = 4\<rparr>) =
     \<lparr>consecutiveFailures = 1, currentBackoff = 4\<rparr> \<and>
   4 * fval 2476979795053773 (- 51) = fval 2476979795053773 (- 49) \<and>
   binary64 2476979795053773 (- 49) \<and>
   trunc_toward_zero (4 * fval 2476979795053773 (- 51)) = 4 \<and>
   currentBackoff (fst (main_cycle factor_1_1 oor_amd64 site_down
        \<lparr>consecutiveFailures = 1, currentBackoff = 4\<rparr>)) = 4"
proof -
  let ?s = "\<lparr>consecutiveFailures = 3, currentBackoff = 135\<rparr>"
  let ?t = "\<lparr>consecutiveFailures = 1, currentBackoff = 4\<rparr>"
  have down: "fst (checkWebsiteDown (urlFlag factor_1_5) (responses site_down)
                    (retriesFlag factor_1_5) (verboseFlag factor_1_5))"
    by code_simp
  have reach: "fst (main_loop factor_1_5 oor_amd64 [site_down, site_down, site_down]
          \<lparr>consecutiveFailures = 0, currentBackoff = 60\<rparr>) = ?s"
    by code_simp
  have c: "1 \<le> consecutiveFailures ?s" by simp
  have v: "fval 3 (- 1) = 3 / 2" by (simp add: fval_def)
  have p: "135 * fval 3 (- 1) = fval 405 (- 1)" by (simp add: fval_def)
  have bp: "binary64 405 (- 1)" by (simp add: binary64_def)
  have t: "trunc_toward_zero (135 * fval 3 (- 1)) = 202"
    by (simp add: v trunc_toward_zero_def)
  have flags: "backoffFactorFlag factor_1_5 = Finite 3 (- 1)" "maxBackoffFlag factor_1_5 = 3600"
    by (simp_all add: factor_1_5_def)
  have exact: "backoffFactorFlag factor_1_5 = Finite 3 (- 1) \<and>
      - (2 ^ 63) \<le> currentBackoff ?s \<and> currentBackoff ?s < 2 ^ 63 \<and>
      of_int (currentBackoff ?s) * fval 3 (- 1) = fval 405 (- 1) \<and> binary64 405 (- 1) \<and>
      - (2 ^ 63) \<le> trunc_toward_zero (of_int (currentBackoff ?s) * fval 3 (- 1)) \<and>
      trunc_toward_zero (of_int (currentBackoff ?s) * fval 3 (- 1)) < 2 ^ 63"
  proof -
    have "- (2 ^ 63) \<le> currentBackoff ?s \<and> currentBackoff ?s < 2 ^ 63" by simp
    moreover have "of_int (currentBackoff ?s) * fval 3 (- 1) = fval 405 (- 1)"
      by (simp add: fval_def)
    moreover have "trunc_toward_zero (of_int (currentBackoff ?s) * fval 3 (- 1)) = 202"
      by (simp add: v trunc_toward_zero_def)
    ultimately show ?thesis using bp flags(1) by simp
  qed
  have grows: "backoffFactorFlag factor_1_5 = Finite 3 (- 1) \<and> 1 \<le> fval 3 (- 1) \<and>
      0 \<le> currentBackoff ?s \<and> currentBackoff ?s \<le> maxBackoffFlag factor_1_5 \<and>
      of_int (currentBackoff ?s) = fval 135 0 \<and> binary64 135 0 \<and>
      of_int (currentBackoff ?s) * fval 3 (- 1) \<le> 2 ^ 63 - 1024"
    by (simp add: v flags fval_def binary64_def)
  from backoff_step [OF down c, of oor_amd64 3 "- 1" 405 "- 1" 135 0] exact grows
  have r1: "currentBackoff (fst (main_cycle factor_1_5 oor_amd64 site_down ?s)) =
          min (trunc_toward_zero (of_int (currentBackoff ?s) * fval 3 (- 1)))
            (maxBackoffFlag factor_1_5)"
    and r2: "currentBackoff ?s \<le> currentBackoff (fst (main_cycle factor_1_5 oor_amd64 site_down ?s))"
    by blast+
  have down': "fst (checkWebsiteDown (urlFlag factor_1_1) (responses site_down)
                    (retriesFlag factor_1_1) (verboseFlag factor_1_1))"
    by code_simp
  have reach': "fst (main_loop factor_1_1 oor_amd64 [site_down]
          \<lparr>consecutiveFailures = 0, currentBackoff = 4\<rparr>) = ?t"
    by code_simp
  have c': "1 \<le> consecutiveFailures ?t" by simp
  have p': "4 * fval 2476979795053773 (- 51) = fval 2476979795053773 (- 49)"
    by (simp add: fval_def)
  have bp': "binary64 2476979795053773 (- 49)" by (simp add: binary64_def)
  have t': "trunc_toward_zero (4 * fval 2476979795053773 (- 51)) = 4"
    by (simp add: fval_def trunc_toward_zero_def)
  have flags': "backoffFactorFlag factor_1_1 = Finite 2476979795053773 (- 51)"
    "maxBackoffFlag factor_1_1 = 300"
    by (simp_all add: factor_1_1_def scenario_C_def)
  have exact': "backoffFactorFlag factor_1_1 = Finite 2476979795053773 (- 51) \<and>
      - (2 ^ 63) \<le> currentBackoff ?t \<and> currentBackoff ?t < 2 ^ 63 \<and>
      of_int (currentBackoff ?t) * fval 2476979795053773 (- 51) =
        fval 2476979795053773 (- 49) \<and>
      binary64 2476979795053773 (- 49) \<and>
      - (2 ^ 63) \<le> trunc_toward_zero (of_int (currentBackoff ?t) * fval 2476979795053773 (- 51)) \<and>
      trunc_toward_zero (of_int (currentBackoff ?t) * fval 2476979795053773 (- 51)) < 2 ^ 63"
  proof -
    have "- (2 ^ 63) \<le> currentBackoff ?t \<and> currentBackoff ?t < 2 ^ 63" by simp
    moreover have "of_int (currentBackoff ?t) * fval 2476979795053773 (- 51) =
        fval 2476979795053773 (- 49)"
      by (simp add: fval_def)
    moreover have "trunc_toward_zero (of_int (currentBackoff ?t) * fval 2476979795053773 (- 51)) = 4"
      by (simp add: fval_def trunc_toward_zero_def)
    ultimately show ?thesis using bp' flags'(1) by simp
  qed
  from backoff_step [OF down' c', of oor_amd64 2476979795053773 "- 51" 2476979795053773 "- 49"]
       exact'
  have r3: "currentBackoff (fst (main_cycle factor_1_1 oor_amd64 site_down ?t)) =
          min (trunc_toward_zero (of_int (currentBackoff ?t) * fval 2476979795053773 (- 51)))
            (maxBackoffFlag factor_1_1)"
    by blast
  have e1: "currentBackoff (fst (main_cycle factor_1_5 oor_amd64 site_down ?s)) = 202"
    using r1 t flags by simp
  have e3: "currentBackoff (fst (main_cycle factor_1_1 oor_amd64 site_down ?t)) = 4"
    using r3 t' flags' by simp
  from r2 e1 have e2: "135 \<le> currentBackoff (fst (main_cycle factor_1_5 oor_amd64 site_down ?s))"
    by simp
  from down reach c p bp t e1 e2 down' reach' p' bp' t' e3 show ?thesis
    by blast
qed

text \<open>
  The claim C1 as the spec states it fails. With factor 1.5 the fourth DOWN cycle in a
  row starts from the delay 135 and ends with 202, not with
  \<open>min (135 * 1.5) 3600 = 202.5\<close>. With a factor of at least 1 the delay still shrinks:
  from \<open>- 10\<close> to \<open>- 20\<close> with factor 2 and \<^verbatim>\<open>-initial-backoff -10\<close>; from 600 to the
  maximum 300 with \<^verbatim>\<open>-initial-backoff 600\<close>; from \<open>2^53 + 1\<close> to \<open>2^53\<close> with factor 1,
  where the conversion to float64 rounds; and from 60 to \<open>- 2^63\<close> on amd64 with factor
  \<open>2^60\<close>, where the product leaves the range of \<^verbatim>\<open>int\<close>.
\<close>

theorem backoff_step_counterexample:
  "fst (main_loop factor_1_5 oor_amd64 [site_down, site_down, site_down]
          \<lparr>consecutiveFailures = 0, currentBackoff = 60\<rparr>) =
     \<lparr>consecutiveFailures = 3, currentBackoff = 135\<rparr> \<and>
   real_of_int (currentBackoff (fst (main_cycle factor_1_5 oor_amd64 site_down
        \<lparr>consecutiveFailures = 3, currentBackoff = 135\<rparr>))) \<noteq>
     min (135 * fval 3 (- 1)) 3600 \<and>
   fst (main_loop negative_initial oor_amd64 [site_down]
          \<lparr>consecutiveFailures = 0, currentBackoff = - 10\<rparr>) =
     \<lparr>consecutiveFailures = 1, currentBackoff = - 10\<rparr> \<and>
   1 \<le> fval 1 1 \<and>
   currentBackoff (fst (main_cycle negative_initial oor_amd64 site_down
        \<lparr>consecutiveFailures = 1, currentBackoff = - 10\<rparr>)) < - 10 \<and>
   fst (main_loop initial_above_maximum oor_amd64 [site_down]
          \<lparr>consecutiveFailures = 0, currentBackoff = 600\<rparr>) =
     \<lparr>consecutiveFailures = 1, currentBackoff = 600\<rparr> \<and>
   currentBackoff (fst (main_cycle initial_above_maximum oor_amd64 site_down
        \<lparr>consecutiveFailures = 1, currentBackoff = 600\<rparr>)) < 600 \<and>
   fst (main_loop initial_54_bits oor_amd64 [site_down]
          \<lparr>consecutiveFailures = 0, currentBackoff = 2 ^ 53 + 1\<rparr>) =
     \<lparr>consecutiveFailures = 1, currentBackoff = 2 ^ 53 + 1\<rparr> \<and>
   1 \<le> fval 1 0 \<and>
   currentBackoff (fst (main_cycle initial_54_bits oor_amd64 site_down
        \<lparr>consecutiveFailures = 1, currentBackoff = 2 ^ 53 + 1\<rparr>)) < 2 ^ 53 + 1 \<and>
   fst (main_loop factor_2_60 oor_amd64 [site_down]
          \<lparr>consecutiveFailures = 0, currentBackoff = 60\<rparr>) =
     \<lparr>consecutiveFailures = 1, currentBackoff = 60\<rparr> \<and>
   1 \<le> fval 1 60 \<and>
   currentBackoff (fst (main_cycle factor_2_60 oor_amd64 site_down
        \<lparr>consecutiveFailures = 1, currentBackoff = 60\<rparr>)) < 60"
proof -
  have r1: "fst (main_loop factor_1_5 oor_amd64 [site_down, site_down, site_down]
          \<lparr>consecutiveFailures = 0, currentBackoff = 60\<rparr>) =
     \<lparr>consecutiveFailures = 3, currentBackoff = 135\<rparr>"
    by code_simp
  have a: "currentBackoff (fst (main_cycle factor_1_5 oor_amd64 site_down
        \<lparr>consecutiveFailures = 3, currentBackoff = 135\<rparr>)) = 202"
    by code_simp
  have r2: "fst (main_loop negative_initial oor_amd64 [site_down]
          \<lparr>consecutiveFailures = 0, currentBackoff = - 10\<rparr>) =
     \<lparr>consecutiveFailures = 1, currentBackoff = - 10\<rparr>"
    by code_simp
  have b: "currentBackoff (fst (main_cycle negative_initial oor_amd64 site_down
        \<lparr>consecutiveFailures = 1, currentBackoff = - 10\<rparr>)) = - 20"
    by code_simp
  have r3: "fst (main_loop initial_above_maximum oor_amd64 [site_down]
          \<lparr>consecutiveFailures = 0, currentBackoff = 600\<rparr>) =
     \<lparr>consecutiveFailures = 1, currentBackoff = 600\<rparr>"
    by code_simp
  have c: "currentBackoff (fst (main_cycle initial_above_maximum oor_amd64 site_down
        \<lparr>consecutiveFailures = 1, currentBackoff = 600\<rparr>)) = 300"
    by code_simp
  have r4: "fst (main_loop initial_54_bits oor_amd64 [site_down]
          \<lparr>consecutiveFailures = 0, currentBackoff = 2 ^ 53 + 1\<rparr>) =
     \<lparr>consecutiveFailures = 1, currentBackoff = 2 ^ 53 + 1\<rparr>"
    by code_simp
  have d: "currentBackoff (fst (main_cycle initial_54_bits oor_amd64 site_down
        \<lparr>consecutiveFailures = 1, currentBackoff = 2 ^ 53 + 1\<rparr>)) = 2 ^ 53"
    by code_simp
  have r5: "fst (main_loop factor_2_60 oor_amd64 [site_down]
          \<lparr>consecutiveFailures = 0, currentBackoff = 60\<rparr>) =
     \<lparr>consecutiveFailures = 1, currentBackoff = 60\<rparr>"
    by code_simp
  have e: "currentBackoff (fst (main_cycle factor_2_60 oor_amd64 site_down
        \<lparr>consecutiveFailures = 1, currentBackoff = 60\<rparr>)) = - (2 ^ 63)"
    by code_simp
  have v: "fval 3 (- 1) = 3 / 2" "fval 1 1 = 2" "fval 1 0 = 1" "1 \<le> fval 1 60"
    by (simp_all add: fval_def)
  show ?thesis unfolding r1 r2 r3 r4 r5 a b c d e using v by simp
qed

text \<open>
  C4, as the code has it. For flags with a finite factor of at least 1, an initial delay
  that is not negative, is at most the maximum and converts to float64 as it is, and
  \<open>maximum * factor\<close> at most \<open>2^63 - 2048\<close>, the delay lies between the initial delay
  and the maximum in every state the loop reaches from its start, whatever the probes
  return and whatever happens to the executable.
\<close>

theorem delay_between_initial_and_maximum:
  assumes "backoffFactorFlag f = Finite m e" and "1 \<le> fval m e"
    and "0 \<le> initialBackoffFlag f" and "initialBackoffFlag f \<le> maxBackoffFlag f"
    and "of_int (initialBackoffFlag f) = fval a b" and "binary64 a b"
    and "of_int (maxBackoffFlag f) * fval m e \<le> 2 ^ 63 - 2048"
    and "main_start f stat = Inr s0"
  shows "initialBackoffFlag f \<le> currentBackoff (fst (main_loop f oor ios s0)) \<and>
         currentBackoff (fst (main_loop f oor ios s0)) \<le> maxBackoffFlag f \<and>
         initialBackoffFlag f \<le> currentBackoff (fst (react_all f oor xs s0)) \<and>
         currentBackoff (fst (react_all f oor xs s0)) \<le> maxBackoffFlag f"
proof -
  from main_start_state [OF assms(8)]
  have s0: "initialBackoffFlag f \<le> currentBackoff s0" "currentBackoff s0 \<le> maxBackoffFlag f"
    using assms(4) by simp_all
  from main_loop_keeps_delay_in_range [OF assms(1-7) s0, of oor ios]
       react_all_keeps_delay_in_range [OF assms(1-7) s0, of oor xs]
  show ?thesis by simp
qed

theorem delay_between_initial_and_maximum_witness:
  "backoffFactorFlag scenario_C = Finite 1 1 \<and> 1 \<le> fval 1 1 \<and>
   0 \<le> initialBackoffFlag scenario_C \<and>
   initialBackoffFlag scenario_C \<le> maxBackoffFlag scenario_C \<and>
   of_int (initialBackoffFlag scenario_C) = fval 15 2 \<and> binary64 15 2 \<and>
   of_int (maxBackoffFlag scenario_C) * fval 1 1 \<le> 2 ^ 63 - 2048 \<and>
   main_start scenario_C (\<lambda>path. Some 493) =
     Inr \<lparr>consecutiveFailures = 0, currentBackoff = 60\<rparr> \<and>
   currentBackoff (fst (main_loop scenario_C oor_amd64
       [site_down, site_down, site_down, site_down, site_down]
       \<lparr>consecutiveFailures = 0, currentBackoff = 60\<rparr>)) = 300 \<and>
   initialBackoffFlag scenario_C \<le> currentBackoff (fst (main_loop scenario_C oor_amd64
       [site_down, site_down, site_down, site_down, site_down]
       \<lparr>consecutiveFailures = 0, currentBackoff = 60\<rparr>)) \<and>
   currentBackoff (fst (main_loop scenario_C oor_amd64
       [site_down, site_down, site_down, site_down, site_down]
       \<lparr>consecutiveFailures = 0, currentBackoff = 60\<rparr>)) \<le> maxBackoffFlag scenario_C \<and>
   initialBackoffFlag large_maximum = 60 \<and> maxBackoffFlag large_maximum = 2 ^ 60 \<and>
   backoffFactorFlag large_maximum = Finite 1 1 \<and>
   of_int (maxBackoffFlag large_maximum) * fval 1 1 \<le> 2 ^ 63 - 2048 \<and>
   main_start large_maximum (\<lambda>path. Some 493) =
     Inr \<lparr>consecutiveFailures = 0, currentBackoff = 60\<rparr> \<and>
   initialBackoffFlag large_maximum \<le> currentBackoff (fst (main_loop large_maximum oor_amd64
       [site_down, site_down, site_down, site_up, site_down]
       \<lparr>consecutiveFailures = 0, currentBackoff = 60\<rparr>)) \<and>
   currentBackoff (fst (main_loop large_maximum oor_amd64
       [site_down, site_down, site_down, site_up, site_down]
       \<lparr>consecutiveFailures = 0, currentBackoff = 60\<rparr>)) \<le> maxBackoffFlag large_maximum"
proof -
  have fac: "backoffFactorFlag scenario_C = Finite 1 1"
    by (simp add: scenario_C_def)
  have one: "1 \<le> fval 1 1"
    by (simp add: fval_def)
  have init: "0 \<le> initialBackoffFlag scenario_C"
    and le: "initialBackoffFlag scenario_C \<le> maxBackoffFlag scenario_C"
    by (simp_all add: scenario_C_def)
  have conv: "of_int (initialBackoffFlag scenario_C) = fval 15 2"
    by (simp add: scenario_C_def fval_def)
  have rep: "binary64 15 2"
    by (simp add: binary64_def)
  have prod: "of_int (maxBackoffFlag scenario_C) * fval 1 1 \<le> 2 ^ 63 - 2048"
    by (simp add: scenario_C_def fval_def)
  have start: "main_start scenario_C (\<lambda>path. Some 493) =
      Inr \<lparr>consecutiveFailures = 0, currentBackoff = 60\<rparr>"
    by code_simp
  have run: "currentBackoff (fst (main_loop scenario_C oor_amd64
       [site_down, site_down, site_down, site_down, site_down]
       \<lparr>consecutiveFailures = 0, currentBackoff = 60\<rparr>)) = 300"
    by code_simp
  from delay_between_initial_and_maximum [OF fac one init le conv rep prod start,
         of oor_amd64 "[site_down, site_down, site_down, site_down, site_down]" "[]"]
  have "initialBackoffFlag scenario_C \<le> currentBackoff (fst (main_loop scenario_C oor_amd64
       [site_down, site_down, site_down, site_down, site_down]
       \<lparr>consecutiveFailures = 0, currentBackoff = 60\<rparr>))"
    and "currentBackoff (fst (main_loop scenario_C oor_amd64
       [site_down, site_down, site_down, site_down, site_down]
       \<lparr>consecutiveFailures = 0, currentBackoff = 60\<rparr>)) \<le> maxBackoffFlag scenario_C"
    by blast+
  note first = this
  have fl: "initialBackoffFlag large_maximum = 60" "maxBackoffFlag large_maximum = 2 ^ 60"
    "backoffFactorFlag large_maximum = Finite 1 1"
    by (simp_all add: large_maximum_def scenario_C_def)
  have init': "0 \<le> initialBackoffFlag large_maximum"
    and le': "initialBackoffFlag large_maximum \<le> maxBackoffFlag large_maximum"
    by (simp_all add: fl)
  have conv': "of_int (initialBackoffFlag large_maximum) = fval 15 2"
    by (simp add: fl fval_def)
  have prod': "of_int (maxBackoffFlag large_maximum) * fval 1 1 \<le> 2 ^ 63 - 2048"
    by (simp add: fl fval_def)
  have start': "main_start large_maximum (\<lambda>path. Some 493) =
      Inr \<lparr>consecutiveFailures = 0, currentBackoff = 60\<rparr>"
    by code_simp
  from delay_between_initial_and_maximum [OF fl(3) one init' le' conv' rep prod' start',
         of oor_amd64 "[site_down, site_down, site_down, site_up, site_down]" "[]"]
  have "initialBackoffFlag large_maximum \<le> currentBackoff (fst (main_loop large_maximum oor_amd64
       [site_down, site_down, site_down, site_up, site_down]
       \<lparr>consecutiveFailures = 0, currentBackoff = 60\<rparr>))"
    and "currentBackoff (fst (main_loop large_maximum oor_amd64
       [site_down, site_down, site_down, site_up, site_down]
       \<lparr>consecutiveFailures = 0, currentBackoff = 60\<rparr>)) \<le> maxBackoffFlag large_maximum"
    by blast+
  note second = this
  from fac one init le conv rep prod start run first fl prod' start' second
  show ?thesis by blast
qed

text \<open>
  The claim C4 as the spec states it asks for a factor of at least 1 and an initial
  delay no greater than the maximum, and that is not enough. With
  \<^verbatim>\<open>-initial-backoff -10\<close> the second DOWN cycle takes the delay to \<open>- 20\<close>. With initial
  delay and maximum \<open>2^53 + 1\<close> and factor 1 the conversion to float64 rounds and the
  delay drops to \<open>2^53\<close>. With factor \<open>2^60\<close> the product leaves the integer range, and
  on amd64 the delay becomes \<open>- 2^63\<close>; so it does with \<^verbatim>\<open>-backoff-factor +Inf\<close>, and
  with factor 2, initial delay \<open>2^61\<close> and maximum \<open>2^62 - 1\<close>, where the delay reaches
  the maximum in the second DOWN cycle, the maximum converts to \<open>2^62\<close> and the float64
  product is \<open>2^63\<close> in the third.
\<close>

theorem delay_between_initial_and_maximum_counterexample:
  "1 \<le> fval 1 1 \<and> initialBackoffFlag negative_initial \<le> maxBackoffFlag negative_initial \<and>
   main_start negative_initial (\<lambda>path. Some 493) =
     Inr \<lparr>consecutiveFailures = 0, currentBackoff = - 10\<rparr> \<and>
   currentBackoff (fst (main_loop negative_initial oor_amd64 [site_down, site_down]
       \<lparr>consecutiveFailures = 0, currentBackoff = - 10\<rparr>)) < initialBackoffFlag negative_initial \<and>
   1 \<le> fval 1 0 \<and>
   currentBackoff (fst (main_loop (scenario_C\<lparr>initialBackoffFlag := 2 ^ 53 + 1,
         maxBackoffFlag := 2 ^ 53 + 1, backoffFactorFlag := Finite 1 0\<rparr>) oor_amd64
       [site_down, site_down]
       \<lparr>consecutiveFailures = 0, currentBackoff = 2 ^ 53 + 1\<rparr>)) < 2 ^ 53 + 1 \<and>
   1 \<le> fval 1 60 \<and>
   currentBackoff (fst (main_loop (scenario_C\<lparr>backoffFactorFlag := Finite 1 60\<rparr>) oor_amd64
       [site_down, site_down]
       \<lparr>consecutiveFailures = 0, currentBackoff = 60\<rparr>)) < initialBackoffFlag scenario_C \<and>
   initialBackoffFlag infinite_factor \<le> maxBackoffFlag infinite_factor \<and>
   main_start infinite_factor (\<lambda>path. Some 493) =
     Inr \<lparr>consecutiveFailures = 0, currentBackoff = 60\<rparr> \<and>
   currentBackoff (fst (main_loop infinite_factor oor_amd64 [site_down, site_down]
       \<lparr>consecutiveFailures = 0, currentBackoff = 60\<rparr>)) < initialBackoffFlag infinite_factor \<and>
   backoffFactorFlag maximum_near_2_63 = Finite 1 1 \<and>
   0 \<le> initialBackoffFlag maximum_near_2_63 \<and>
   initialBackoffFlag maximum_near_2_63 \<le> maxBackoffFlag maximum_near_2_63 \<and>
   of_int (initialBackoffFlag maximum_near_2_63) = fval 1 61 \<and> binary64 1 61 \<and>
   of_int (maxBackoffFlag maximum_near_2_63) * fval 1 1 = 2 ^ 63 - 2 \<and>
   main_start maximum_near_2_63 (\<lambda>path. Some 493) =
     Inr \<lparr>consecutiveFailures = 0, currentBackoff = 2 ^ 61\<rparr> \<and>
   currentBackoff (fst (main_loop maximum_near_2_63 oor_amd64 [site_down, site_down, site_down]
       \<lparr>consecutiveFailures = 0, currentBackoff = 2 ^ 61\<rparr>)) <
     initialBackoffFlag maximum_near_2_63"
proof -
  have s: "main_start negative_initial (\<lambda>path. Some 493) =
     Inr \<lparr>consecutiveFailures = 0, currentBackoff = - 10\<rparr>"
    by code_simp
  have a: "currentBackoff (fst (main_loop negative_initial oor_amd64 [site_down, site_down]
       \<lparr>consecutiveFailures = 0, currentBackoff = - 10\<rparr>)) = - 20"
    by code_simp
  have b: "currentBackoff (fst (main_loop (scenario_C\<lparr>initialBackoffFlag := 2 ^ 53 + 1,
         maxBackoffFlag := 2 ^ 53 + 1, backoffFactorFlag := Finite 1 0\<rparr>) oor_amd64
       [site_down, site_down]
       \<lparr>consecutiveFailures = 0, currentBackoff = 2 ^ 53 + 1\<rparr>)) = 2 ^ 53"
    by code_simp
  have c: "currentBackoff (fst (main_loop (scenario_C\<lparr>backoffFactorFlag := Finite 1 60\<rparr>)
       oor_amd64 [site_down, site_down]
       \<lparr>consecutiveFailures = 0, currentBackoff = 60\<rparr>)) = - (2 ^ 63)"
    by code_simp
  have s': "main_start infinite_factor (\<lambda>path. Some 493) =
     Inr \<lparr>consecutiveFailures = 0, currentBackoff = 60\<rparr>"
    by code_simp
  have d: "currentBackoff (fst (main_loop infinite_factor oor_amd64 [site_down, site_down]
       \<lparr>consecutiveFailures = 0, currentBackoff = 60\<rparr>)) = - (2 ^ 63)"
    by code_simp
  have s'': "main_start maximum_near_2_63 (\<lambda>path. Some 493) =
     Inr \<lparr>consecutiveFailures = 0, currentBackoff = 2 ^ 61\<rparr>"
    by code_simp
  have e: "currentBackoff (fst (main_loop maximum_near_2_63 oor_amd64
       [site_down, site_down, site_down]
       \<lparr>consecutiveFailures = 0, currentBackoff = 2 ^ 61\<rparr>)) = - (2 ^ 63)"
    by code_simp
  have v: "fval 1 1 = 2" "fval 1 0 = 1" "1 \<le> fval 1 60" "fval 1 61 = 2 ^ 61"
    by (simp_all add: fval_def)
  have fl: "initialBackoffFlag negative_initial = - 10" "maxBackoffFlag negative_initial = 300"
    "initialBackoffFlag scenario_C = 60"
    "initialBackoffFlag infinite_factor = 60" "maxBackoffFlag infinite_factor = 300"
    "initialBackoffFlag maximum_near_2_63 = 2 ^ 61"
    "maxBackoffFlag maximum_near_2_63 = 2 ^ 62 - 1"
    "backoffFactorFlag maximum_near_2_63 = Finite 1 1"
    by (simp_all add: negative_initial_def infinite_factor_def maximum_near_2_63_def
        scenario_C_def)
  have bin: "binary64 1 61"
    by (simp add: binary64_def)
  show ?thesis unfolding s a b c s' d s'' e fl using v bin by simp
qed

end
